theory Spec2Isabelle
  imports Main "HOL-Library.AList"
begin

section \<open>Python values used by the recommendation engine\<close>

text \<open>
  Strings are \<open>char list\<close>. Every string of the engine's tables is ASCII, and
  \<open>str.lower()\<close> and \<open>str.upper()\<close> are modelled on the ASCII letters; every other
  character is left as it is.
\<close>

definition upper_letters :: string where
  "upper_letters = ''ABCDEFGHIJKLMNOPQRSTUVWXYZ''"

definition lower_letters :: string where
  "lower_letters = ''abcdefghijklmnopqrstuvwxyz''"

definition lower_char :: "char \<Rightarrow> char" where
  "lower_char c = (case map_of (zip upper_letters lower_letters) c of Some l \<Rightarrow> l | None \<Rightarrow> c)"

definition upper_char :: "char \<Rightarrow> char" where
  "upper_char c = (case map_of (zip lower_letters upper_letters) c of Some u \<Rightarrow> u | None \<Rightarrow> c)"

definition lower :: "string \<Rightarrow> string" where
  "lower s = map lower_char s"

text \<open>
  \<open>str.capitalize()\<close>: first character upper-cased, the rest lower-cased, on the
  ASCII letters as \<open>lower\<close> is. The engine calls it only for the reasoning text of a
  preference that has no display name.
\<close>

definition capitalize :: "string \<Rightarrow> string" where
  "capitalize s = (case s of [] \<Rightarrow> [] | c # cs \<Rightarrow> upper_char c # lower cs)"

text \<open>\<open>sep.join(xs)\<close>.\<close>

fun join :: "string \<Rightarrow> string list \<Rightarrow> string" where
  "join sep [] = []"
| "join sep [x] = x"
| "join sep (x # y # ys) = x @ sep @ join sep (y # ys)"

text \<open>\<open>xs * n\<close> on a list: \<open>n\<close> copies of \<open>xs\<close> one after another.\<close>

definition list_mul :: "'a list \<Rightarrow> nat \<Rightarrow> 'a list" where
  "list_mul xs n = concat (replicate n xs)"

text \<open>
  A Python \<open>dict\<close> keeps its keys in insertion order; it is an association list.
  \<open>d[k] = v\<close> is \<open>AList.update k v d\<close> (the value is replaced in place when the key
  is present, the pair is appended otherwise), \<open>k in d\<close> is \<open>map_of d k \<noteq> None\<close>,
  \<open>d.values()\<close> is \<open>map snd d\<close> and \<open>not d\<close> is \<open>d = []\<close>.
\<close>

type_synonym ('k, 'v) dict = "('k \<times> 'v) list"

type_synonym catalog = "(string, string list) dict"

text \<open>The exceptions the engine can raise, with their argument.\<close>

datatype error = ValueError string | KeyError string

section \<open>The tables built by \<open>HabitRecommender.__init__\<close>\<close>

text \<open>The eight habit lists of \<open>self.habits\<close>, one constant per category.\<close>

definition relaxation_habits :: "string list" where
  "relaxation_habits =
    [''Listen to calming music for 5 minutes'',
     ''Take a 5-minute breathing break'',
     ''Practice progressive muscle relaxation'',
     ''Do a quick guided meditation'',
     ''Take a mindful tea break'']"

definition mindfulness_habits :: "string list" where
  "mindfulness_habits =
    [''Do a 5-minute meditation session'',
     ''Practice mindful breathing for 3 minutes'',
     ''Journal 3 things you're grateful for'',
     ''Do a body scan meditation'',
     ''Practice mindful walking for 5 minutes'']"

definition physical_activity_habits :: "string list" where
  "physical_activity_habits =
    [''Go for a short 10-minute walk'',
     ''Do 5 minutes of stretching'',
     ''Do 10 jumping jacks'',
     ''Take the stairs instead of elevator'',
     ''Do a quick yoga flow'']"

definition productivity_habits :: "string list" where
  "productivity_habits =
    [''Tidy your workspace'',
     ''Read a book for 10 minutes'',
     ''Write down your top 3 priorities'',
     ''Organize your digital files'',
     ''Learn something new for 10 minutes'']"

definition social_habits :: "string list" where
  "social_habits =
    [''Send a message to a friend'',
     ''Call a family member'',
     ''Write a thank you note'',
     ''Compliment someone'',
     ''Reach out to an old friend'']"

definition creative_habits :: "string list" where
  "creative_habits =
    [''Doodle or sketch for 5 minutes'',
     ''Write a short poem or haiku'',
     ''Take 3 interesting photos'',
     ''Brainstorm ideas for a project'',
     ''Listen to a new genre of music'']"

definition digital_wellbeing_habits :: "string list" where
  "digital_wellbeing_habits =
    [''Turn off notifications for 30 minutes'',
     ''Do a quick digital declutter'',
     ''Take a short screen break'',
     ''Adjust your screen brightness'',
     ''Set app time limits'']"

definition nature_habits :: "string list" where
  "nature_habits =
    [''Step outside for fresh air'',
     ''Water your plants'',
     ''Look at the sky for a few minutes'',
     ''Listen to nature sounds'',
     ''Open a window for fresh air'']"

definition habits :: catalog where
  "habits =
    [(''relaxation'', relaxation_habits),
     (''mindfulness'', mindfulness_habits),
     (''physical_activity'', physical_activity_habits),
     (''productivity'', productivity_habits),
     (''social'', social_habits),
     (''creative'', creative_habits),
     (''digital_wellbeing'', digital_wellbeing_habits),
     (''nature'', nature_habits)]"

definition valid_moods :: "string list" where
  "valid_moods =
    [''stressed'', ''anxious'', ''overwhelmed'',
     ''tired'', ''fatigued'', ''exhausted'',
     ''happy'', ''excited'', ''motivated'',
     ''bored'', ''understimulated'', ''restless'',
     ''sad'', ''down'', ''depressed'',
     ''angry'', ''frustrated'', ''irritated'']"

definition mood_categories :: "(string, string list) dict" where
  "mood_categories =
    [(''stressed_anxious'', [''stressed'', ''anxious'', ''overwhelmed'']),
     (''tired_fatigued'', [''tired'', ''fatigued'', ''exhausted'']),
     (''happy_excited'', [''happy'', ''excited'', ''motivated'']),
     (''understimulated'', [''bored'', ''understimulated'', ''restless'']),
     (''negative'', [''sad'', ''down'', ''depressed'', ''angry'', ''frustrated'', ''irritated''])]"

definition valid_preferences :: "string list" where
  "valid_preferences =
    [''relaxation'', ''mindfulness'', ''physical_activity'', ''productivity'',
     ''social'', ''creative'', ''digital_wellbeing'', ''nature'']"

definition preference_display_names :: "(string, string) dict" where
  "preference_display_names =
    [(''relaxation'', ''Relaxation''),
     (''mindfulness'', ''Mindfulness''),
     (''physical_activity'', ''Physical Activity''),
     (''productivity'', ''Productivity''),
     (''social'', ''Social''),
     (''creative'', ''Creative''),
     (''digital_wellbeing'', ''Digital Wellbeing''),
     (''nature'', ''Nature'')]"

definition mood_preference_affinity :: "(string, string list) dict" where
  "mood_preference_affinity =
    [(''stressed_anxious'', [''relaxation'', ''mindfulness'', ''nature'']),
     (''tired_fatigued'', [''physical_activity'', ''nature'', ''social'']),
     (''happy_excited'', [''productivity'', ''creative'', ''social'']),
     (''understimulated'', [''creative'', ''physical_activity'', ''productivity'']),
     (''negative'', [''mindfulness'', ''social'', ''nature''])]"

section \<open>\<open>_normalize_preferences\<close>\<close>

text \<open>
  The reverse mapping \<open>{v.lower(): k for k, v in preference_display_names.items()}\<close>:
  the comprehension stores the pairs one after another.
\<close>

definition display_to_internal :: "(string, string) dict" where
  "display_to_internal =
     foldl (\<lambda>d (k, v). AList.update (lower v) k d) [] preference_display_names"

text \<open>The body of the loop over the preferences: what is appended for one entry.\<close>

definition normalize_pref :: "string \<Rightarrow> string" where
  "normalize_pref pref =
     (let pref_lower = lower pref in
      case map_of display_to_internal pref_lower of
        Some internal \<Rightarrow> internal
      | None \<Rightarrow> if pref_lower \<in> set valid_preferences then pref_lower else pref)"

fun normalize_loop :: "string list \<Rightarrow> string list \<Rightarrow> string list" where
  "normalize_loop normalized [] = normalized"
| "normalize_loop normalized (pref # rest) =
     normalize_loop (normalized @ [normalize_pref pref]) rest"

definition normalize_preferences :: "string list \<Rightarrow> string list" where
  "normalize_preferences preferences = normalize_loop [] preferences"

section \<open>\<open>_validate_inputs\<close>\<close>

text \<open>
  The screen time is the \<open>int\<close> of the signature, so the \<open>isinstance\<close> test holds.
  The function returns nothing; each \<open>raise\<close> is an \<open>Inl\<close>.
\<close>

fun validate_preferences_loop :: "string list \<Rightarrow> error + unit" where
  "validate_preferences_loop [] = Inr ()"
| "validate_preferences_loop (pref # rest) =
     (if pref \<notin> set valid_preferences
      then Inl (ValueError (''Invalid preference: '' @ pref @ ''. Valid preferences are: ''
                            @ join '', '' valid_preferences))
      else validate_preferences_loop rest)"

definition validate_inputs :: "string \<Rightarrow> int \<Rightarrow> string list \<Rightarrow> error + unit" where
  "validate_inputs mood screen_time_minutes preferences =
     (if lower mood \<notin> set valid_moods
      then Inl (ValueError (''Invalid mood: '' @ mood @ ''. Valid moods are: ''
                            @ join '', '' valid_moods))
      else if screen_time_minutes < 0
      then Inl (ValueError ''Screen time must be a positive number of minutes'')
      else validate_preferences_loop (normalize_preferences preferences))"

section \<open>Mood classification\<close>

text \<open>
  The loop of \<open>get_habit_suggestion\<close> over \<open>mood_categories.items()\<close>: the first
  category whose mood list holds the lower-cased mood, \<open>None\<close> when there is none.
\<close>

fun mood_category_loop :: "(string, string list) dict \<Rightarrow> string \<Rightarrow> string option" where
  "mood_category_loop [] mood = None"
| "mood_category_loop ((category, moods) # rest) mood =
     (if lower mood \<in> set moods then Some category else mood_category_loop rest mood)"

section \<open>\<open>_apply_screen_time_rules\<close>\<close>

text \<open>
  The loop \<open>for category in [...]: filtered_habits[category] =
  filtered_habits.get(category, []) * 2\<close>.
\<close>

fun double_categories :: "string list \<Rightarrow> catalog \<Rightarrow> catalog" where
  "double_categories [] filtered_habits = filtered_habits"
| "double_categories (category # rest) filtered_habits =
     double_categories rest
       (AList.update category
          (list_mul (case map_of filtered_habits category of Some hs \<Rightarrow> hs | None \<Rightarrow> []) 2)
          filtered_habits)"

text \<open>
  The first argument is \<open>self.habits\<close>. This is the function on values; the function on
  objects, with the copy and the stores, is \<open>apply_screen_time_rules_heap\<close> below.
\<close>

definition apply_screen_time_rules :: "catalog \<Rightarrow> int \<Rightarrow> catalog" where
  "apply_screen_time_rules self_habits screen_time_minutes =
     (let filtered_habits = self_habits in
      if screen_time_minutes > 240
      then double_categories [''digital_wellbeing'', ''physical_activity'', ''nature'']
             filtered_habits
      else if screen_time_minutes > 120
      then double_categories [''digital_wellbeing''] filtered_habits
      else filtered_habits)"

section \<open>\<open>_apply_mood_rules\<close>\<close>

text \<open>
  The loop \<open>for pref in ...: if pref in filtered_habits: result_habits[pref] =
  filtered_habits[pref] * 2\<close>, which the function runs over the preferences and, for
  the mood-based defaults, over the affinity list.
\<close>

fun double_weight_loop :: "catalog \<Rightarrow> string list \<Rightarrow> catalog \<Rightarrow> catalog" where
  "double_weight_loop filtered_habits [] result_habits = result_habits"
| "double_weight_loop filtered_habits (pref # rest) result_habits =
     double_weight_loop filtered_habits rest
       (case map_of filtered_habits pref of
          Some hs \<Rightarrow> AList.update pref (list_mul hs 2) result_habits
        | None \<Rightarrow> result_habits)"

text \<open>
  The loop over the affinity list that triples a preference. \<open>filtered_habits[pref]\<close>
  raises \<open>KeyError\<close> on a missing key.
\<close>

fun triple_weight_loop ::
  "catalog \<Rightarrow> string list \<Rightarrow> string list \<Rightarrow> catalog \<Rightarrow> error + catalog" where
  "triple_weight_loop filtered_habits preferences [] result_habits = Inr result_habits"
| "triple_weight_loop filtered_habits preferences (pref # rest) result_habits =
     (if pref \<in> set preferences \<and> map_of result_habits pref \<noteq> None
      then (case map_of filtered_habits pref of
              None \<Rightarrow> Inl (KeyError pref)
            | Some hs \<Rightarrow>
                triple_weight_loop filtered_habits preferences rest
                  (AList.update pref (list_mul hs 3) result_habits))
      else triple_weight_loop filtered_habits preferences rest result_habits)"

text \<open>
  \<open>mood_category in self.mood_preference_affinity\<close> and the lookup that follows it;
  the mood category is \<open>None\<close> when no category matched.
\<close>

definition affinity_prefs_of :: "string option \<Rightarrow> string list option" where
  "affinity_prefs_of mood_category =
     (case mood_category of
        None \<Rightarrow> None
      | Some c \<Rightarrow> map_of mood_preference_affinity c)"

definition apply_mood_rules ::
  "string option \<Rightarrow> catalog \<Rightarrow> string list \<Rightarrow> error + catalog" where
  "apply_mood_rules mood_category filtered_habits preferences =
     (case (if preferences \<noteq> []
            then (let result_habits = double_weight_loop filtered_habits preferences [] in
                  case affinity_prefs_of mood_category of
                    Some affinity_prefs \<Rightarrow>
                      triple_weight_loop filtered_habits preferences affinity_prefs result_habits
                  | None \<Rightarrow> Inr result_habits)
            else Inr [])
      of Inl e \<Rightarrow> Inl e
       | Inr result_habits \<Rightarrow>
           (let result_habits' =
                  (if result_habits = []
                   then (case affinity_prefs_of mood_category of
                           Some affinity_prefs \<Rightarrow>
                             double_weight_loop filtered_habits affinity_prefs result_habits
                         | None \<Rightarrow> result_habits)
                   else result_habits)
            in if result_habits' = [] then Inr filtered_habits else Inr result_habits'))"

section \<open>\<open>_weighted_random_selection\<close>\<close>

fun extend_loop :: "string list \<Rightarrow> string list list \<Rightarrow> string list" where
  "extend_loop all_habits [] = all_habits"
| "extend_loop all_habits (category_habits # rest) =
     extend_loop (all_habits @ category_habits) rest"

text \<open>
  \<open>random.choice(seq)\<close> on a non-empty sequence returns \<open>seq[k]\<close> for an index
  \<open>k < len(seq)\<close> drawn from the random source. The draw is the argument \<open>rnd\<close>, and
  the index is \<open>rnd mod len(seq)\<close>: every index is reached by some draw. On an empty
  sequence \<open>random.choice\<close> raises; its only caller tests for the empty pool first.
\<close>

definition random_choice :: "nat \<Rightarrow> 'a list \<Rightarrow> 'a" where
  "random_choice rnd seq = seq ! (rnd mod length seq)"

definition fallback_habit :: string where
  "fallback_habit = ''Take a 5-minute break and reflect on your day''"

definition weighted_random_selection :: "nat \<Rightarrow> catalog \<Rightarrow> string" where
  "weighted_random_selection rnd filtered_habits =
     (let all_habits = extend_loop [] (map snd filtered_habits) in
      if all_habits = [] then fallback_habit else random_choice rnd all_habits)"

section \<open>\<open>_generate_reasoning\<close>\<close>

definition display_name :: "string \<Rightarrow> string" where
  "display_name p =
     (case map_of preference_display_names p of Some d \<Rightarrow> d | None \<Rightarrow> capitalize p)"

definition generate_reasoning ::
  "string \<Rightarrow> string option \<Rightarrow> int \<Rightarrow> string list \<Rightarrow> string \<Rightarrow> string" where
  "generate_reasoning mood mood_category screen_time_minutes preferences selected_habit =
     (let reasons1 =
            (if mood_category = Some ''stressed_anxious''
             then [''When you're feeling '' @ mood @
                   '', activities that promote relaxation and mindfulness can help reduce stress.'']
             else if mood_category = Some ''tired_fatigued''
             then [''When you're feeling '' @ mood @
                   '', light physical activity can actually boost your energy levels.'']
             else if mood_category = Some ''happy_excited''
             then [''When you're feeling '' @ mood @
                   '', channeling that positive energy into productive or creative tasks can be fulfilling.'']
             else if mood_category = Some ''understimulated''
             then [''When you're feeling '' @ mood @
                   '', engaging in stimulating activities can help increase your motivation.'']
             else if mood_category = Some ''negative''
             then [''When you're feeling '' @ mood @
                   '', mindful activities and social connection can help improve your mood.'']
             else []);
          reasons2 =
            (if screen_time_minutes > 240
             then reasons1 @ [''Your screen time is quite high today, so taking a break from devices could be beneficial.'']
             else if screen_time_minutes > 120
             then reasons1 @ [''You've had a moderate amount of screen time today, so a short break might be refreshing.'']
             else reasons1);
          reasons3 =
            (if preferences \<noteq> []
             then reasons2 @ [''This suggestion aligns with your preference for '' @
                              join '' and '' (map display_name preferences) @ ''.'']
             else reasons2)
      in join '' '' reasons3)"

section \<open>\<open>get_habit_suggestion\<close>\<close>

record suggestion =
  res_habit :: string
  res_mood :: string
  res_mood_category :: "string option"
  res_screen_time_minutes :: int
  res_preferences :: "string list"
  res_timestamp :: string
  res_reasoning :: string

text \<open>
  \<open>rnd\<close> is the draw of the random source and \<open>now\<close> the text of
  \<open>datetime.now().isoformat()\<close>. No Firebase service is attached, and with one the
  branch is \<open>pass\<close>.
\<close>

definition get_habit_suggestion ::
  "nat \<Rightarrow> string \<Rightarrow> string \<Rightarrow> int \<Rightarrow> string list \<Rightarrow> error + suggestion" where
  "get_habit_suggestion rnd now mood screen_time_minutes preferences =
     (case validate_inputs mood screen_time_minutes preferences of
        Inl e \<Rightarrow> Inl e
      | Inr _ \<Rightarrow>
          (let normalized_preferences = normalize_preferences preferences;
               mood_category = mood_category_loop mood_categories mood;
               filtered_habits = apply_screen_time_rules habits screen_time_minutes
           in case apply_mood_rules mood_category filtered_habits normalized_preferences of
                Inl e \<Rightarrow> Inl e
              | Inr filtered_habits' \<Rightarrow>
                  (let selected_habit = weighted_random_selection rnd filtered_habits';
                       reasoning = generate_reasoning mood mood_category screen_time_minutes
                                     normalized_preferences selected_habit
                   in Inr \<lparr>res_habit = selected_habit,
                           res_mood = mood,
                           res_mood_category = mood_category,
                           res_screen_time_minutes = screen_time_minutes,
                           res_preferences = preferences,
                           res_timestamp = now,
                           res_reasoning = reasoning\<rparr>)))"

section \<open>\<open>_apply_screen_time_rules\<close> on objects\<close>

text \<open>
  The function copies \<open>self.habits\<close> and stores into the copy, so what it leaves in
  \<open>self.habits\<close> depends on which objects are shared. Here dictionaries and lists are
  objects in a heap and a dictionary maps its keys to the addresses of its lists (strings
  are immutable and stay values). The heap is the list of the objects allocated so far:
  the address of an object is its index, and a new object is appended.
\<close>

type_synonym addr = nat

datatype obj = DictObj "(string, addr) dict" | ListObj "string list"

type_synonym heap = "obj list"

definition alloc :: "heap \<Rightarrow> obj \<Rightarrow> heap \<times> addr" where
  "alloc h ob = (h @ [ob], length h)"

text \<open>
  Reading an address as a dictionary or as a list. \<open>None\<close> is the type error of
  an address that holds no such object.
\<close>

definition dict_at :: "heap \<Rightarrow> addr \<Rightarrow> (string, addr) dict option" where
  "dict_at h a =
     (if a < length h then (case h ! a of DictObj d \<Rightarrow> Some d | ListObj _ \<Rightarrow> None) else None)"

definition list_at :: "heap \<Rightarrow> addr \<Rightarrow> string list option" where
  "list_at h a =
     (if a < length h then (case h ! a of ListObj xs \<Rightarrow> Some xs | DictObj _ \<Rightarrow> None) else None)"

text \<open>
  The value a dictionary of lists stands for: each key with the content of its list.
  It is defined when the address is a dictionary and each of its values a list.
\<close>

definition catalog_at :: "heap \<Rightarrow> addr \<Rightarrow> catalog option" where
  "catalog_at h a =
     (case dict_at h a of
        None \<Rightarrow> None
      | Some d \<Rightarrow>
          if list_all (\<lambda>(k, la). list_at h la \<noteq> None) d
          then Some (map (\<lambda>(k, la). (k, the (list_at h la))) d)
          else None)"

text \<open>\<open>d.copy()\<close>: a new dictionary with the same keys and the same references.\<close>

definition dict_copy :: "heap \<Rightarrow> addr \<Rightarrow> (heap \<times> addr) option" where
  "dict_copy h a =
     (case dict_at h a of None \<Rightarrow> None | Some d \<Rightarrow> Some (alloc h (DictObj d)))"

text \<open>
  The loop body \<open>filtered_habits[category] = filtered_habits.get(category, []) * 2\<close>:
  the default \<open>[]\<close> is built before \<open>get\<close> runs, \<open>* 2\<close> builds a new list, and
  the store changes the dictionary at \<open>filtered_habits\<close>.
\<close>

definition double_category_heap :: "string \<Rightarrow> heap \<Rightarrow> addr \<Rightarrow> heap option" where
  "double_category_heap category h filtered_habits =
     (case dict_at h filtered_habits of
        None \<Rightarrow> None
      | Some d \<Rightarrow>
          (let (h1, empty) = alloc h (ListObj []);
               r = (case map_of d category of Some la \<Rightarrow> la | None \<Rightarrow> empty)
           in case list_at h1 r of
                None \<Rightarrow> None
              | Some xs \<Rightarrow>
                  (let (h2, doubled) = alloc h1 (ListObj (list_mul xs 2))
                   in Some (h2[filtered_habits := DictObj (AList.update category doubled d)]))))"

fun double_categories_heap :: "string list \<Rightarrow> heap \<Rightarrow> addr \<Rightarrow> heap option" where
  "double_categories_heap [] h filtered_habits = Some h"
| "double_categories_heap (category # rest) h filtered_habits =
     (case double_category_heap category h filtered_habits of
        None \<Rightarrow> None
      | Some h' \<Rightarrow> double_categories_heap rest h' filtered_habits)"

definition apply_screen_time_rules_heap :: "heap \<Rightarrow> addr \<Rightarrow> int \<Rightarrow> (heap \<times> addr) option" where
  "apply_screen_time_rules_heap h self_habits screen_time_minutes =
     (case dict_copy h self_habits of
        None \<Rightarrow> None
      | Some (h0, filtered_habits) \<Rightarrow>
          (case (if screen_time_minutes > 240
                 then double_categories_heap
                        [''digital_wellbeing'', ''physical_activity'', ''nature''] h0 filtered_habits
                 else if screen_time_minutes > 120
                 then double_categories_heap [''digital_wellbeing''] h0 filtered_habits
                 else Some h0)
           of None \<Rightarrow> None
            | Some h' \<Rightarrow> Some (h', filtered_habits)))"

text \<open>
  The heap once \<open>__init__\<close> has built \<open>self.habits\<close>: the eight lists, then the
  dictionary that refers to them, at address \<open>habits_addr\<close>.
\<close>

definition init_heap :: heap where
  "init_heap =
    [ListObj relaxation_habits, ListObj mindfulness_habits, ListObj physical_activity_habits,
     ListObj productivity_habits, ListObj social_habits, ListObj creative_habits,
     ListObj digital_wellbeing_habits, ListObj nature_habits,
     DictObj [(''relaxation'', 0), (''mindfulness'', 1), (''physical_activity'', 2),
              (''productivity'', 3), (''social'', 4), (''creative'', 5),
              (''digital_wellbeing'', 6), (''nature'', 7)]]"

definition habits_addr :: addr where
  "habits_addr = 8"

section \<open>Properties\<close>

subsection \<open>Auxiliary facts\<close>

lemma letters_zip:
  "zip upper_letters lower_letters =
     [(CHR ''A'', CHR ''a''), (CHR ''B'', CHR ''b''), (CHR ''C'', CHR ''c''), (CHR ''D'', CHR ''d''),
      (CHR ''E'', CHR ''e''), (CHR ''F'', CHR ''f''), (CHR ''G'', CHR ''g''), (CHR ''H'', CHR ''h''),
      (CHR ''I'', CHR ''i''), (CHR ''J'', CHR ''j''), (CHR ''K'', CHR ''k''), (CHR ''L'', CHR ''l''),
      (CHR ''M'', CHR ''m''), (CHR ''N'', CHR ''n''), (CHR ''O'', CHR ''o''), (CHR ''P'', CHR ''p''),
      (CHR ''Q'', CHR ''q''), (CHR ''R'', CHR ''r''), (CHR ''S'', CHR ''s''), (CHR ''T'', CHR ''t''),
      (CHR ''U'', CHR ''u''), (CHR ''V'', CHR ''v''), (CHR ''W'', CHR ''w''), (CHR ''X'', CHR ''x''),
      (CHR ''Y'', CHR ''y''), (CHR ''Z'', CHR ''z'')]"
  by (simp add: upper_letters_def lower_letters_def)

lemmas lower_simps = lower_def lower_char_def letters_zip

lemma list_mul_2: "list_mul xs 2 = xs @ xs"
  by (simp add: list_mul_def numeral_2_eq_2)

lemma list_mul_3: "list_mul xs 3 = xs @ xs @ xs"
  by (simp add: list_mul_def numeral_3_eq_3)

lemma normalize_loop_map: "normalize_loop acc ps = acc @ map normalize_pref ps"
  by (induction ps arbitrary: acc) auto

lemma normalize_preferences_map: "normalize_preferences ps = map normalize_pref ps"
  by (simp add: normalize_preferences_def normalize_loop_map)

lemma display_to_internal_eq:
  "display_to_internal =
    [(''relaxation'', ''relaxation''), (''mindfulness'', ''mindfulness''),
     (''physical activity'', ''physical_activity''), (''productivity'', ''productivity''),
     (''social'', ''social''), (''creative'', ''creative''),
     (''digital wellbeing'', ''digital_wellbeing''), (''nature'', ''nature'')]"
  by (simp add: display_to_internal_def preference_display_names_def lower_simps)

lemma lower_valid_preferences: "k \<in> set valid_preferences \<Longrightarrow> lower k = k"
  by (auto simp: valid_preferences_def lower_simps)

lemma normalize_pref_canonical: "k \<in> set valid_preferences \<Longrightarrow> normalize_pref k = k"
  by (auto simp: normalize_pref_def Let_def lower_valid_preferences display_to_internal_eq
      valid_preferences_def split: option.splits)

lemma ran_display_to_internal:
  "map_of display_to_internal s = Some k \<Longrightarrow> k \<in> set valid_preferences"
  by (auto simp: display_to_internal_eq valid_preferences_def split: if_splits)

lemma normalize_pref_cases:
  "normalize_pref x \<in> set valid_preferences \<or> normalize_pref x = x"
  by (auto simp: normalize_pref_def Let_def dest: ran_display_to_internal split: option.splits)

lemma normalize_pref_idem: "normalize_pref (normalize_pref x) = normalize_pref x"
  using normalize_pref_cases [of x] by (auto simp: normalize_pref_canonical)

lemma mood_category_loop_Some:
  "mood_category_loop d m = Some c \<Longrightarrow> \<exists>ms. (c, ms) \<in> set d \<and> lower m \<in> set ms"
  by (induction d m rule: mood_category_loop.induct) (auto split: if_splits)

lemma mood_category_loop_defined:
  "lower m \<in> set (concat (map snd d)) \<Longrightarrow> \<exists>c. mood_category_loop d m = Some c"
  by (induction d m rule: mood_category_loop.induct) auto

lemma distinct_concat_unique:
  "distinct (concat (map snd d)) \<Longrightarrow> (c, ms) \<in> set d \<Longrightarrow> (c', ms') \<in> set d \<Longrightarrow>
   x \<in> set ms \<Longrightarrow> x \<in> set ms' \<Longrightarrow> c = c'"
proof (induction d)
  case Nil
  then show ?case by simp
next
  case (Cons p d)
  then show ?case by (cases p) fastforce
qed

lemma concat_mood_categories: "concat (map snd mood_categories) = valid_moods"
  by (simp add: valid_moods_def mood_categories_def)

lemma distinct_valid_moods: "distinct valid_moods"
  by (simp add: valid_moods_def)

lemma join_valid_moods:
  "join '', '' valid_moods =
     ''stressed, anxious, overwhelmed, tired, fatigued, exhausted, happy, excited, motivated, bored, understimulated, restless, sad, down, depressed, angry, frustrated, irritated''"
  by (simp add: valid_moods_def)

lemma lower_Sad: "lower ''Sad'' = ''sad''"
  by (simp add: lower_simps)

lemma lower_Neutral: "lower ''Neutral'' = ''neutral''"
  by (simp add: lower_simps)

lemma update_values:
  "\<forall>p \<in> set res. P (snd p) \<Longrightarrow> P v \<Longrightarrow> \<forall>p \<in> set (AList.update k v res). P (snd p)"
  by (induction res) auto

lemma extend_loop_concat: "extend_loop acc vs = acc @ concat vs"
  by (induction vs arbitrary: acc) auto

lemma random_choice_mem: "xs \<noteq> [] \<Longrightarrow> random_choice rnd xs \<in> set xs"
  by (simp add: random_choice_def)

lemma random_choice_onto: "x \<in> set xs \<Longrightarrow> \<exists>rnd. random_choice rnd xs = x"
proof -
  assume "x \<in> set xs"
  then obtain i where "i < length xs" "xs ! i = x"
    by (auto simp: in_set_conv_nth)
  then have "random_choice i xs = x"
    by (simp add: random_choice_def)
  then show ?thesis ..
qed

lemma validate_preferences_loop_ok:
  "set ps \<subseteq> set valid_preferences \<Longrightarrow> validate_preferences_loop ps = Inr ()"
  by (induction ps) auto

lemma validate_inputs_ok:
  "lower mood \<in> set valid_moods \<Longrightarrow> 0 \<le> t \<Longrightarrow>
   set (normalize_preferences prefs) \<subseteq> set valid_preferences \<Longrightarrow>
   validate_inputs mood t prefs = Inr ()"
  by (simp add: validate_inputs_def validate_preferences_loop_ok)

lemma lookup_values:
  "\<forall>p \<in> set fh. snd p \<noteq> [] \<and> set (snd p) \<subseteq> S \<Longrightarrow> map_of fh k = Some hs \<Longrightarrow>
   hs \<noteq> [] \<and> set hs \<subseteq> S"
  by (metis map_of_SomeD snd_conv)

lemma double_weight_loop_values:
  assumes "\<forall>p \<in> set fh. snd p \<noteq> [] \<and> set (snd p) \<subseteq> S"
    and "\<forall>p \<in> set res. snd p \<noteq> [] \<and> set (snd p) \<subseteq> S"
  shows "\<forall>p \<in> set (double_weight_loop fh ps res). snd p \<noteq> [] \<and> set (snd p) \<subseteq> S"
  using assms(2)
proof (induction ps arbitrary: res)
  case Nil
  then show ?case by simp
next
  case (Cons pref rest)
  show ?case
  proof (cases "map_of fh pref")
    case None
    then have eq: "double_weight_loop fh (pref # rest) res = double_weight_loop fh rest res"
      by simp
    show ?thesis
      unfolding eq by (rule Cons.IH) (rule Cons.prems)
  next
    case (Some hs)
    from lookup_values [OF assms(1) this] have hs: "hs \<noteq> []" "set hs \<subseteq> S"
      by simp_all
    have step: "\<forall>p \<in> set (AList.update pref (list_mul hs 2) res). snd p \<noteq> [] \<and> set (snd p) \<subseteq> S"
      by (rule update_values [OF Cons.prems]) (simp add: list_mul_2 hs)
    have eq: "double_weight_loop fh (pref # rest) res =
        double_weight_loop fh rest (AList.update pref (list_mul hs 2) res)"
      using Some by simp
    show ?thesis
      unfolding eq by (rule Cons.IH) (rule step)
  qed
qed

lemma double_weight_loop_keys:
  assumes "\<forall>k. map_of res k \<noteq> None \<longrightarrow> map_of fh k \<noteq> None"
  shows "\<forall>k. map_of (double_weight_loop fh ps res) k \<noteq> None \<longrightarrow> map_of fh k \<noteq> None"
  using assms
proof (induction ps arbitrary: res)
  case Nil
  then show ?case by simp
next
  case (Cons pref rest)
  show ?case
  proof (cases "map_of fh pref")
    case None
    with Cons show ?thesis by simp
  next
    case (Some hs)
    have "\<forall>k. map_of (AList.update pref (list_mul hs 2) res) k \<noteq> None \<longrightarrow> map_of fh k \<noteq> None"
      using Cons.prems Some by (simp add: update_conv')
    from Cons.IH [OF this] Some show ?thesis by simp
  qed
qed

lemma triple_weight_loop_total:
  assumes "\<forall>p \<in> set fh. snd p \<noteq> [] \<and> set (snd p) \<subseteq> S"
    and "\<forall>k. map_of res k \<noteq> None \<longrightarrow> map_of fh k \<noteq> None"
    and "\<forall>p \<in> set res. snd p \<noteq> [] \<and> set (snd p) \<subseteq> S"
  shows "\<exists>res'. triple_weight_loop fh prefs ap res = Inr res' \<and>
           (res \<noteq> [] \<longrightarrow> res' \<noteq> []) \<and> (res = [] \<longrightarrow> res' = []) \<and>
           (\<forall>p \<in> set res'. snd p \<noteq> [] \<and> set (snd p) \<subseteq> S)"
  using assms(2,3)
proof (induction ap arbitrary: res)
  case Nil
  then show ?case by simp
next
  case (Cons pref rest)
  show ?case
  proof (cases "pref \<in> set prefs \<and> map_of res pref \<noteq> None")
    case False
    with Cons.IH [OF Cons.prems] show ?thesis by auto
  next
    case True
    with Cons.prems(1) obtain hs where hs: "map_of fh pref = Some hs"
      by auto
    from lookup_values [OF assms(1) hs] have ne: "hs \<noteq> []" "set hs \<subseteq> S"
      by simp_all
    let ?res = "AList.update pref (list_mul hs 3) res"
    have k: "\<forall>k. map_of ?res k \<noteq> None \<longrightarrow> map_of fh k \<noteq> None"
      using Cons.prems(1) hs by (simp add: update_conv')
    have v: "\<forall>p \<in> set ?res. snd p \<noteq> [] \<and> set (snd p) \<subseteq> S"
      by (rule update_values [OF Cons.prems(2)]) (simp add: list_mul_3 ne)
    have "res \<noteq> []"
      using True by auto
    with Cons.IH [OF k v] True hs show ?thesis by auto
  qed
qed

lemma apply_mood_rules_pool:
  assumes fh: "\<forall>p \<in> set fh. snd p \<noteq> [] \<and> set (snd p) \<subseteq> S" and ne: "fh \<noteq> []"
  shows "\<exists>out. apply_mood_rules mc fh prefs = Inr out \<and> out \<noteq> [] \<and>
           (\<forall>p \<in> set out. snd p \<noteq> [] \<and> set (snd p) \<subseteq> S)"
proof -
  let ?ok = "\<lambda>d. \<forall>p \<in> set d. snd p \<noteq> [] \<and> set (snd p) \<subseteq> S"
  let ?stage1 = "(if prefs \<noteq> []
            then (case affinity_prefs_of mc of
                    Some affinity_prefs \<Rightarrow>
                      triple_weight_loop fh prefs affinity_prefs (double_weight_loop fh prefs [])
                  | None \<Rightarrow> Inr (double_weight_loop fh prefs []))
            else Inr [])"
  have k: "\<forall>k. map_of (double_weight_loop fh prefs []) k \<noteq> None \<longrightarrow> map_of fh k \<noteq> None"
    by (rule double_weight_loop_keys) simp
  have v: "?ok (double_weight_loop fh prefs [])"
    by (rule double_weight_loop_values [OF fh]) simp
  have "\<exists>res. ?stage1 = Inr res \<and> ?ok res"
  proof (cases "prefs = []")
    case True
    then show ?thesis by simp
  next
    case False
    show ?thesis
    proof (cases "affinity_prefs_of mc")
      case None
      with False v show ?thesis by simp
    next
      case (Some ap)
      from triple_weight_loop_total [OF fh k v, of prefs ap] False Some
      show ?thesis by auto
    qed
  qed
  then obtain res where res: "?stage1 = Inr res" and ok: "?ok res"
    by blast
  let ?res' = "(if res = []
                   then (case affinity_prefs_of mc of
                           Some affinity_prefs \<Rightarrow> double_weight_loop fh affinity_prefs res
                         | None \<Rightarrow> res)
                   else res)"
  have ok': "?ok ?res'"
  proof (cases "affinity_prefs_of mc")
    case None
    with ok show ?thesis by simp
  next
    case (Some ap)
    with double_weight_loop_values [OF fh ok, of ap] ok show ?thesis by simp
  qed
  have "apply_mood_rules mc fh prefs = (if ?res' = [] then Inr fh else Inr ?res')"
    unfolding apply_mood_rules_def Let_def by (simp only: res sum.case)
  with ok' fh ne show ?thesis
    by (cases "?res' = []") simp_all
qed

lemma weighted_random_selection_mem:
  assumes "out \<noteq> []" and "\<forall>p \<in> set out. snd p \<noteq> [] \<and> set (snd p) \<subseteq> S"
  shows "weighted_random_selection rnd out \<in> set (concat (map snd out)) \<and>
         weighted_random_selection rnd out \<in> S"
proof -
  from assms obtain p ps where "out = p # ps" "snd p \<noteq> []"
    by (cases out) auto
  then have ne: "concat (map snd out) \<noteq> []"
    by simp
  then have "weighted_random_selection rnd out = random_choice rnd (concat (map snd out))"
    by (simp only: weighted_random_selection_def extend_loop_concat Let_def append_Nil if_False)
  with random_choice_mem [OF ne, of rnd] assms(2) show ?thesis
    by auto
qed

lemma screen_time_rules_cases:
  "apply_screen_time_rules habits t =
     (if t > 240 then
        [(''relaxation'', relaxation_habits),
         (''mindfulness'', mindfulness_habits),
         (''physical_activity'', physical_activity_habits @ physical_activity_habits),
         (''productivity'', productivity_habits),
         (''social'', social_habits),
         (''creative'', creative_habits),
         (''digital_wellbeing'', digital_wellbeing_habits @ digital_wellbeing_habits),
         (''nature'', nature_habits @ nature_habits)]
      else if t > 120 then
        [(''relaxation'', relaxation_habits),
         (''mindfulness'', mindfulness_habits),
         (''physical_activity'', physical_activity_habits),
         (''productivity'', productivity_habits),
         (''social'', social_habits),
         (''creative'', creative_habits),
         (''digital_wellbeing'', digital_wellbeing_habits @ digital_wellbeing_habits),
         (''nature'', nature_habits)]
      else habits)"
  by (simp add: apply_screen_time_rules_def Let_def habits_def list_mul_2)

lemma habit_lists_nonempty:
  "relaxation_habits \<noteq> []" "mindfulness_habits \<noteq> []" "physical_activity_habits \<noteq> []"
  "productivity_habits \<noteq> []" "social_habits \<noteq> []" "creative_habits \<noteq> []"
  "digital_wellbeing_habits \<noteq> []" "nature_habits \<noteq> []"
  by (simp_all add: relaxation_habits_def mindfulness_habits_def physical_activity_habits_def
      productivity_habits_def social_habits_def creative_habits_def
      digital_wellbeing_habits_def nature_habits_def)

lemma screen_time_rules_values:
  "\<forall>p \<in> set (apply_screen_time_rules habits t).
     snd p \<noteq> [] \<and> set (snd p) \<subseteq> set (concat (map snd habits))"
  unfolding screen_time_rules_cases
  by (auto simp: habits_def habit_lists_nonempty)

lemma screen_time_rules_nonempty: "apply_screen_time_rules habits t \<noteq> []"
  unfolding screen_time_rules_cases by (simp add: habits_def)

lemma fallback_not_in_catalog: "fallback_habit \<notin> set (concat (map snd habits))"
  by (simp add: fallback_habit_def habits_def relaxation_habits_def mindfulness_habits_def
      physical_activity_habits_def productivity_habits_def social_habits_def creative_habits_def
      digital_wellbeing_habits_def nature_habits_def)

lemma get_habit_suggestion_valid:
  assumes v: "validate_inputs mood t prefs = Inr ()"
  shows "\<exists>out. apply_mood_rules (mood_category_loop mood_categories mood)
                  (apply_screen_time_rules habits t) (normalize_preferences prefs) = Inr out \<and>
           out \<noteq> [] \<and>
           (\<forall>p \<in> set out. snd p \<noteq> [] \<and> set (snd p) \<subseteq> set (concat (map snd habits))) \<and>
           get_habit_suggestion rnd now mood t prefs =
             Inr \<lparr>res_habit = weighted_random_selection rnd out,
                  res_mood = mood,
                  res_mood_category = mood_category_loop mood_categories mood,
                  res_screen_time_minutes = t,
                  res_preferences = prefs,
                  res_timestamp = now,
                  res_reasoning = generate_reasoning mood (mood_category_loop mood_categories mood) t
                     (normalize_preferences prefs) (weighted_random_selection rnd out)\<rparr>"
proof -
  from apply_mood_rules_pool [OF screen_time_rules_values screen_time_rules_nonempty]
  obtain out where out: "apply_mood_rules (mood_category_loop mood_categories mood)
                  (apply_screen_time_rules habits t) (normalize_preferences prefs) = Inr out"
      "out \<noteq> []"
      "\<forall>p \<in> set out. snd p \<noteq> [] \<and> set (snd p) \<subseteq> set (concat (map snd habits))"
    by blast
  have "get_habit_suggestion rnd now mood t prefs =
             Inr \<lparr>res_habit = weighted_random_selection rnd out,
                  res_mood = mood,
                  res_mood_category = mood_category_loop mood_categories mood,
                  res_screen_time_minutes = t,
                  res_preferences = prefs,
                  res_timestamp = now,
                  res_reasoning = generate_reasoning mood (mood_category_loop mood_categories mood) t
                     (normalize_preferences prefs) (weighted_random_selection rnd out)\<rparr>"
    unfolding get_habit_suggestion_def Let_def
    by (simp only: v out(1) sum.case)
  with out show ?thesis by blast
qed

lemma double_weight_loop_append:
  "double_weight_loop fh (xs @ ys) res = double_weight_loop fh ys (double_weight_loop fh xs res)"
  by (induction xs arbitrary: res) simp_all

lemma double_weight_loop_map_of:
  "map_of (double_weight_loop fh ps res) k =
     (if k \<in> set ps \<and> map_of fh k \<noteq> None
      then map_option (\<lambda>hs. list_mul hs 2) (map_of fh k)
      else map_of res k)"
proof (induction ps arbitrary: res)
  case Nil
  show ?case by simp
next
  case (Cons pref rest)
  show ?case
  proof (cases "map_of fh pref")
    case None
    then have eq: "double_weight_loop fh (pref # rest) res = double_weight_loop fh rest res"
      by simp
    show ?thesis
      unfolding eq Cons.IH using None by auto
  next
    case (Some hs)
    then have eq: "double_weight_loop fh (pref # rest) res =
        double_weight_loop fh rest (AList.update pref (list_mul hs 2) res)"
      by simp
    show ?thesis
      unfolding eq Cons.IH using Some by (auto simp: update_conv')
  qed
qed

lemma double_weight_loop_again:
  assumes "y \<in> set ys"
  shows "double_weight_loop fh [y] (double_weight_loop fh ys res) = double_weight_loop fh ys res"
proof (cases "map_of fh y")
  case None
  then show ?thesis by simp
next
  case (Some hs)
  have "map_of (double_weight_loop fh ys res) y = Some (list_mul hs 2)"
    using assms Some by (simp add: double_weight_loop_map_of)
  then have "AList.update y (list_mul hs 2) (double_weight_loop fh ys res) =
      double_weight_loop fh ys res"
    by (rule update_triv)
  with Some show ?thesis by simp
qed

lemma double_weight_loop_dedup:
  "double_weight_loop fh (rev (remdups (rev ps))) res = double_weight_loop fh ps res"
proof (induction ps rule: rev_induct)
  case Nil
  show ?case by simp
next
  case (snoc x xs)
  show ?case
  proof (cases "x \<in> set xs")
    case True
    then have "rev (remdups (rev (xs @ [x]))) = rev (remdups (rev xs))"
      by simp
    then show ?thesis
      using snoc.IH double_weight_loop_again [OF True, of fh res]
      by (simp only: double_weight_loop_append)
  next
    case False
    then have "rev (remdups (rev (xs @ [x]))) = rev (remdups (rev xs)) @ [x]"
      by simp
    then show ?thesis
      using snoc.IH by (simp only: double_weight_loop_append)
  qed
qed

lemma triple_weight_loop_cong:
  "set p = set q \<Longrightarrow> triple_weight_loop fh p ap res = triple_weight_loop fh q ap res"
  by (induction ap arbitrary: res) (auto split: option.splits)

lemma normalize_preferences_Nil: "normalize_preferences [] = []"
  by (simp add: normalize_preferences_def)

lemma lower_HAPPY: "lower ''HAPPY'' = ''happy''"
  by (simp add: lower_simps)

lemma lower_Stressed: "lower ''Stressed'' = ''stressed''"
  by (simp add: lower_simps)

lemma normalize_example:
  "normalize_preferences [''Relaxation'', ''Mindfulness''] = [''relaxation'', ''mindfulness'']"
  by (simp add: normalize_preferences_map normalize_pref_def Let_def display_to_internal_eq
      lower_simps)

lemma mood_category_Stressed:
  "mood_category_loop mood_categories ''Stressed'' = Some ''stressed_anxious''"
  by (simp add: mood_categories_def lower_Stressed)

lemma mood_category_Sad:
  "mood_category_loop mood_categories ''Sad'' = Some ''negative''"
  by (simp add: mood_categories_def lower_Sad)

lemma stressed_example_pool:
  "apply_mood_rules (Some ''stressed_anxious'') (apply_screen_time_rules habits 310)
     [''relaxation'', ''mindfulness''] =
   Inr [(''relaxation'', relaxation_habits @ relaxation_habits @ relaxation_habits),
        (''mindfulness'', mindfulness_habits @ mindfulness_habits @ mindfulness_habits)]"
  unfolding screen_time_rules_cases
  by (simp add: apply_mood_rules_def affinity_prefs_of_def
      mood_preference_affinity_def list_mul_2 list_mul_3)

lemma negative_pool:
  assumes "map_of fh ''mindfulness'' = Some ms" and "map_of fh ''social'' = Some ss"
    and "map_of fh ''nature'' = Some ns"
  shows "apply_mood_rules (Some ''negative'') fh [] =
     Inr [(''mindfulness'', ms @ ms), (''social'', ss @ ss), (''nature'', ns @ ns)]"
  using assms
  by (simp add: apply_mood_rules_def affinity_prefs_of_def mood_preference_affinity_def
      list_mul_2)

lemma negative_weighted_lists:
  "map_of (apply_screen_time_rules habits t) ''mindfulness'' = Some mindfulness_habits"
  "map_of (apply_screen_time_rules habits t) ''social'' = Some social_habits"
  "map_of (apply_screen_time_rules habits t) ''nature'' =
     Some (if t > 240 then nature_habits @ nature_habits else nature_habits)"
  unfolding screen_time_rules_cases by (simp_all add: habits_def)

lemma affinity_disjoint:
  "x \<in> set mindfulness_habits \<union> set social_habits \<union> set nature_habits \<Longrightarrow>
   x \<notin> set productivity_habits \<and> x \<notin> set creative_habits"
  by (auto simp: mindfulness_habits_def social_habits_def nature_habits_def
      productivity_habits_def creative_habits_def)

lemma catalog_atD:
  assumes "catalog_at h a = Some c"
  obtains d where "dict_at h a = Some d"
    and "list_all (\<lambda>(k, la). list_at h la \<noteq> None) d"
    and "c = map (\<lambda>(k, la). (k, the (list_at h la))) d"
  using assms by (auto simp: catalog_at_def split: option.splits if_splits)

lemma catalog_atI:
  assumes "dict_at h a = Some d" and "list_all (\<lambda>(k, la). list_at h la \<noteq> None) d"
  shows "catalog_at h a = Some (map (\<lambda>(k, la). (k, the (list_at h la))) d)"
  using assms by (simp add: catalog_at_def)

lemma dict_at_length: "dict_at h a = Some d \<Longrightarrow> a < length h"
  by (simp add: dict_at_def split: if_splits)

lemma dict_list_disjoint: "dict_at h a = Some d \<Longrightarrow> list_at h a = None"
  by (auto simp: dict_at_def list_at_def split: if_splits obj.splits)

lemma map_update_values:
  "map (\<lambda>(k, la). (k, g la)) (AList.update c n d) =
   AList.update c (g n) (map (\<lambda>(k, la). (k, g la)) d)"
  by (induction d) auto

lemma map_of_map_values:
  "map_of (map (\<lambda>(k, la). (k, g la)) d) c = map_option g (map_of d c)"
  by (induction d) auto

lemma list_all_update:
  "list_all (\<lambda>(k, la). P la) d \<Longrightarrow> P n \<Longrightarrow> list_all (\<lambda>(k, la). P la) (AList.update c n d)"
  by (induction d) auto

lemma list_all_lookup:
  "list_all (\<lambda>(k, la). P la) d \<Longrightarrow> map_of d c = Some la \<Longrightarrow> P la"
  by (induction d) (auto split: if_splits)


lemma list_at_length: "list_at h a = Some xs \<Longrightarrow> a < length h"
  by (simp add: list_at_def split: if_splits)

lemma list_at_frame:
  assumes "a < length h" and "length h \<le> length h'" and "h' ! a = h ! a"
  shows "list_at h' a = list_at h a"
  using assms by (simp add: list_at_def)

lemma dict_at_frame:
  assumes "a < length h" and "length h \<le> length h'" and "h' ! a = h ! a"
  shows "dict_at h' a = dict_at h a"
  using assms by (simp add: dict_at_def)

lemma list_all_values_cong:
  assumes "list_all (\<lambda>(k, la). f la \<noteq> None) d"
    and "\<And>la. f la \<noteq> None \<Longrightarrow> g la = f la"
  shows "list_all (\<lambda>(k, la). g la \<noteq> None) d \<and>
         map (\<lambda>(k, la). (k, the (g la))) d = map (\<lambda>(k, la). (k, the (f la))) d"
  using assms(1)
proof (induction d)
  case Nil
  show ?case by simp
next
  case (Cons p d)
  obtain k la where p: "p = (k, la)"
    by (cases p)
  from Cons.prems p have "f la \<noteq> None" and rest: "list_all (\<lambda>(k, la). f la \<noteq> None) d"
    by simp_all
  with assms(2) [of la] Cons.IH [OF rest] p show ?case
    by simp
qed

lemma catalog_at_frame:
  assumes c: "catalog_at h a = Some c" and len: "length h \<le> length h'"
    and same: "\<And>i. i < length h \<Longrightarrow> i \<noteq> x \<Longrightarrow> h' ! i = h ! i"
    and x: "dict_at h x \<noteq> None \<or> length h \<le> x" and ax: "a \<noteq> x"
  shows "catalog_at h' a = Some c"
proof -
  from c obtain d where d: "dict_at h a = Some d"
    and wf: "list_all (\<lambda>(k, la). list_at h la \<noteq> None) d"
    and cv: "c = map (\<lambda>(k, la). (k, the (list_at h la))) d"
    by (rule catalog_atD)
  have a: "a < length h"
    using d by (rule dict_at_length)
  have d': "dict_at h' a = Some d"
    using dict_at_frame [OF a len same [OF a ax]] d by simp
  have l: "list_at h' la = list_at h la" if "list_at h la \<noteq> None" for la
  proof -
    from that obtain xs where xs: "list_at h la = Some xs"
      by blast
    then have la: "la < length h"
      by (rule list_at_length)
    have "la \<noteq> x"
    proof
      assume "la = x"
      with x la have "dict_at h la \<noteq> None"
        by auto
      then obtain dd where "dict_at h la = Some dd"
        by blast
      from dict_list_disjoint [OF this] xs show False
        by simp
    qed
    from list_at_frame [OF la len same [OF la this]] show ?thesis .
  qed
  from list_all_values_cong [of "list_at h" d "list_at h'", OF wf l]
  have "list_all (\<lambda>(k, la). list_at h' la \<noteq> None) d"
    and "map (\<lambda>(k, la). (k, the (list_at h' la))) d = c"
    by (simp_all add: cv)
  with catalog_atI [OF d'] show ?thesis
    by simp
qed

lemma double_category_heap_step:
  assumes cat: "catalog_at h fa = Some cv"
  shows "\<exists>h'. double_category_heap c h fa = Some h' \<and> length h \<le> length h' \<and>
           (\<forall>i < length h. i \<noteq> fa \<longrightarrow> h' ! i = h ! i) \<and>
           catalog_at h' fa =
             Some (AList.update c
                     (list_mul (case map_of cv c of Some hs \<Rightarrow> hs | None \<Rightarrow> []) 2) cv)"
proof -
  from cat obtain d where d: "dict_at h fa = Some d"
    and wf: "list_all (\<lambda>(k, la). list_at h la \<noteq> None) d"
    and cv: "cv = map (\<lambda>(k, la). (k, the (list_at h la))) d"
    by (rule catalog_atD)
  have fa: "fa < length h"
    using d by (rule dict_at_length)
  let ?h1 = "h @ [ListObj []]"
  let ?r = "case map_of d c of Some la \<Rightarrow> la | None \<Rightarrow> length h"
  let ?xs = "case map_of cv c of Some hs \<Rightarrow> hs | None \<Rightarrow> []"
  have r: "list_at ?h1 ?r = Some ?xs"
  proof (cases "map_of d c")
    case None
    then have "map_of cv c = None"
      by (simp add: cv map_of_map_values)
    with None show ?thesis
      by (simp add: list_at_def)
  next
    case (Some la)
    from list_all_lookup [of "\<lambda>la. list_at h la \<noteq> None" d c la, OF wf Some]
    obtain ys where ys: "list_at h la = Some ys"
      by blast
    then have "la < length h"
      by (rule list_at_length)
    then have "list_at ?h1 la = list_at h la"
      by (intro list_at_frame) (simp_all add: nth_append)
    moreover have "map_of cv c = Some ys"
      using Some ys by (simp add: cv map_of_map_values)
    ultimately show ?thesis
      using Some ys by simp
  qed
  let ?n = "Suc (length h)"
  let ?h2 = "?h1 @ [ListObj (list_mul ?xs 2)]"
  let ?h' = "?h2[fa := DictObj (AList.update c ?n d)]"
  have run: "double_category_heap c h fa = Some ?h'"
    by (simp add: double_category_heap_def d alloc_def r)
  have len: "length h \<le> length ?h'"
    by simp
  have same: "h' ! i = h ! i" if "i < length h" "i \<noteq> fa" "h' = ?h'" for i h'
    using that by (simp add: nth_append)
  have d': "dict_at ?h' fa = Some (AList.update c ?n d)"
    using fa by (simp add: dict_at_def)
  have new: "list_at ?h' ?n = Some (list_mul ?xs 2)"
    using fa by (simp add: list_at_def nth_append)
  have old: "list_at ?h' la = list_at h la" if "list_at h la \<noteq> None" for la
  proof -
    from that obtain ys where ys: "list_at h la = Some ys"
      by blast
    then have la: "la < length h"
      by (rule list_at_length)
    have "la \<noteq> fa"
      using dict_list_disjoint [OF d] ys by auto
    from list_at_frame [OF la len same [OF la this refl]] show ?thesis .
  qed
  from list_all_values_cong [of "list_at h" d "list_at ?h'", OF wf old]
  have wf': "list_all (\<lambda>(k, la). list_at ?h' la \<noteq> None) d"
    and m: "map (\<lambda>(k, la). (k, the (list_at ?h' la))) d = cv"
    by (simp_all add: cv)
  have wf'': "list_all (\<lambda>(k, la). list_at ?h' la \<noteq> None) (AList.update c ?n d)"
    using wf' new by (intro list_all_update) simp_all
  have "catalog_at ?h' fa =
      Some (map (\<lambda>(k, la). (k, the (list_at ?h' la))) (AList.update c ?n d))"
    using d' wf'' by (rule catalog_atI)
  also have "map (\<lambda>(k, la). (k, the (list_at ?h' la))) (AList.update c ?n d) =
      AList.update c (list_mul ?xs 2) cv"
    by (simp only: map_update_values [of "\<lambda>la. the (list_at ?h' la)"] m new option.sel)
  finally have "catalog_at ?h' fa = Some (AList.update c (list_mul ?xs 2) cv)" .
  with run len same show ?thesis
    by blast
qed

lemma double_categories_heap_ok:
  assumes "catalog_at h fa = Some cv"
  shows "\<exists>h'. double_categories_heap cs h fa = Some h' \<and> length h \<le> length h' \<and>
           (\<forall>i < length h. i \<noteq> fa \<longrightarrow> h' ! i = h ! i) \<and>
           catalog_at h' fa = Some (double_categories cs cv)"
  using assms
proof (induction cs arbitrary: h cv)
  case Nil
  then show ?case by simp
next
  case (Cons c cs)
  from double_category_heap_step [OF Cons.prems, of c]
  obtain h1 where h1: "double_category_heap c h fa = Some h1" "length h \<le> length h1"
      "\<forall>i < length h. i \<noteq> fa \<longrightarrow> h1 ! i = h ! i"
      "catalog_at h1 fa =
         Some (AList.update c
                 (list_mul (case map_of cv c of Some hs \<Rightarrow> hs | None \<Rightarrow> []) 2) cv)"
    by blast
  from Cons.IH [OF h1(4)]
  obtain h2 where h2: "double_categories_heap cs h1 fa = Some h2" "length h1 \<le> length h2"
      "\<forall>i < length h1. i \<noteq> fa \<longrightarrow> h2 ! i = h1 ! i"
      "catalog_at h2 fa =
         Some (double_categories cs (AList.update c
                 (list_mul (case map_of cv c of Some hs \<Rightarrow> hs | None \<Rightarrow> []) 2) cv))"
    by blast
  have run: "double_categories_heap (c # cs) h fa = Some h2"
    using h1(1) h2(1) by simp
  have len: "length h \<le> length h2"
    using h1(2) h2(2) by simp
  have same: "\<forall>i < length h. i \<noteq> fa \<longrightarrow> h2 ! i = h ! i"
    using h1(2,3) h2(3) by auto
  have "catalog_at h2 fa = Some (double_categories (c # cs) cv)"
    using h2(4) by simp
  with run len same show ?case
    by blast
qed

lemma dict_copy_ok:
  assumes "catalog_at h a = Some c"
  shows "\<exists>h0. dict_copy h a = Some (h0, length h) \<and> length h0 = Suc (length h) \<and>
           (\<forall>i < length h. h0 ! i = h ! i) \<and> catalog_at h0 (length h) = Some c"
proof -
  from assms obtain d where d: "dict_at h a = Some d"
    and wf: "list_all (\<lambda>(k, la). list_at h la \<noteq> None) d"
    and cv: "c = map (\<lambda>(k, la). (k, the (list_at h la))) d"
    by (rule catalog_atD)
  let ?h0 = "h @ [DictObj d]"
  have run: "dict_copy h a = Some (?h0, length h)"
    by (simp add: dict_copy_def d alloc_def)
  have same: "\<forall>i < length h. ?h0 ! i = h ! i"
    by (simp add: nth_append)
  have d0: "dict_at ?h0 (length h) = Some d"
    by (simp add: dict_at_def)
  have old: "list_at ?h0 la = list_at h la" if "list_at h la \<noteq> None" for la
  proof -
    from that obtain ys where "list_at h la = Some ys"
      by blast
    then have "la < length h"
      by (rule list_at_length)
    then show ?thesis
      by (intro list_at_frame) (simp_all add: nth_append)
  qed
  from list_all_values_cong [of "list_at h" d "list_at ?h0", OF wf old]
  have "list_all (\<lambda>(k, la). list_at ?h0 la \<noteq> None) d"
    and "map (\<lambda>(k, la). (k, the (list_at ?h0 la))) d = c"
    by (simp_all add: cv)
  with catalog_atI [OF d0] have "catalog_at ?h0 (length h) = Some c"
    by simp
  with run same show ?thesis
    by simp
qed

lemma apply_mood_rules_dedup:
  "apply_mood_rules mood_category filtered_habits (rev (remdups (rev preferences))) =
   apply_mood_rules mood_category filtered_habits preferences"
proof -
  let ?d = "rev (remdups (rev preferences))"
  have s: "set ?d = set preferences"
    by simp
  have e1: "(?d \<noteq> []) = (preferences \<noteq> [])"
    using s by (metis set_empty)
  have e2: "double_weight_loop filtered_habits ?d [] =
      double_weight_loop filtered_habits preferences []"
    by (rule double_weight_loop_dedup)
  have e3: "triple_weight_loop filtered_habits ?d ap res =
      triple_weight_loop filtered_habits preferences ap res" for ap res
    using s by (rule triple_weight_loop_cong)
  show ?thesis
    unfolding apply_mood_rules_def by (simp only: e1 e2 e3)
qed

lemma triple_weight_loop_map_of:
  assumes "\<forall>k. map_of res k \<noteq> None \<longrightarrow> map_of fh k \<noteq> None"
  shows "\<exists>res'. triple_weight_loop fh prefs ap res = Inr res' \<and>
           (res \<noteq> [] \<longrightarrow> res' \<noteq> []) \<and>
           (\<forall>k. map_of res' k =
              (if k \<in> set ap \<and> k \<in> set prefs \<and> map_of res k \<noteq> None
               then map_option (\<lambda>hs. list_mul hs 3) (map_of fh k)
               else map_of res k))"
  using assms
proof (induction ap arbitrary: res)
  case Nil
  show ?case by simp
next
  case (Cons pref rest)
  show ?case
  proof (cases "pref \<in> set prefs \<and> map_of res pref \<noteq> None")
    case False
    then have eq: "triple_weight_loop fh prefs (pref # rest) res =
        triple_weight_loop fh prefs rest res"
      by auto
    from Cons.IH [OF Cons.prems]
    obtain res' where r: "triple_weight_loop fh prefs rest res = Inr res'"
        "res \<noteq> [] \<longrightarrow> res' \<noteq> []"
        "\<forall>k. map_of res' k =
              (if k \<in> set rest \<and> k \<in> set prefs \<and> map_of res k \<noteq> None
               then map_option (\<lambda>hs. list_mul hs 3) (map_of fh k)
               else map_of res k)"
      by blast
    have "\<forall>k. map_of res' k =
              (if k \<in> set (pref # rest) \<and> k \<in> set prefs \<and> map_of res k \<noteq> None
               then map_option (\<lambda>hs. list_mul hs 3) (map_of fh k)
               else map_of res k)"
      using r(3) False by auto
    with r(1,2) show ?thesis
      unfolding eq by blast
  next
    case True
    with Cons.prems obtain hs where hs: "map_of fh pref = Some hs"
      by auto
    let ?res = "AList.update pref (list_mul hs 3) res"
    have eq: "triple_weight_loop fh prefs (pref # rest) res =
        triple_weight_loop fh prefs rest ?res"
      using True hs by simp
    have k: "\<forall>k. map_of ?res k \<noteq> None \<longrightarrow> map_of fh k \<noteq> None"
      using Cons.prems hs by (simp add: update_conv')
    from Cons.IH [OF k]
    obtain res' where r: "triple_weight_loop fh prefs rest ?res = Inr res'"
        "?res \<noteq> [] \<longrightarrow> res' \<noteq> []"
        "\<forall>k. map_of res' k =
              (if k \<in> set rest \<and> k \<in> set prefs \<and> map_of ?res k \<noteq> None
               then map_option (\<lambda>hs. list_mul hs 3) (map_of fh k)
               else map_of ?res k)"
      by blast
    have "\<forall>k. map_of res' k =
              (if k \<in> set (pref # rest) \<and> k \<in> set prefs \<and> map_of res k \<noteq> None
               then map_option (\<lambda>hs. list_mul hs 3) (map_of fh k)
               else map_of res k)"
      using r(3) True hs by (auto simp: update_conv')
    moreover have "res' \<noteq> []"
      using r(2) by simp
    ultimately show ?thesis
      using r(1) unfolding eq by blast
  qed
qed

lemma apply_mood_rules_weights:
  assumes p: "pref \<in> set prefs" and hs: "map_of fh pref = Some hs"
  shows "\<exists>res. apply_mood_rules mc fh prefs = Inr res \<and>
           map_of res pref =
             Some (if pref \<in> set (case affinity_prefs_of mc of Some ap \<Rightarrow> ap | None \<Rightarrow> [])
                   then list_mul hs 3 else list_mul hs 2) \<and>
           (\<forall>k. map_of res k \<noteq> None \<longrightarrow> k \<in> set prefs \<and> map_of fh k \<noteq> None)"
proof -
  let ?r0 = "double_weight_loop fh prefs []"
  let ?aff = "case affinity_prefs_of mc of Some ap \<Rightarrow> ap | None \<Rightarrow> []"
  let ?stage1 = "(if prefs \<noteq> []
            then (case affinity_prefs_of mc of
                    Some affinity_prefs \<Rightarrow> triple_weight_loop fh prefs affinity_prefs ?r0
                  | None \<Rightarrow> Inr ?r0)
            else Inr [])"
  have ne: "prefs \<noteq> []"
    using p by auto
  have m0: "map_of ?r0 k =
      (if k \<in> set prefs \<and> map_of fh k \<noteq> None
       then map_option (\<lambda>hs. list_mul hs 2) (map_of fh k) else None)" for k
    by (simp add: double_weight_loop_map_of)
  have k0: "\<forall>k. map_of ?r0 k \<noteq> None \<longrightarrow> map_of fh k \<noteq> None"
    by (rule double_weight_loop_keys) simp
  have "map_of ?r0 pref = Some (list_mul hs 2)"
    using p hs by (simp add: m0)
  then have ne0: "?r0 \<noteq> []"
    by auto
  have "\<exists>res. ?stage1 = Inr res \<and> res \<noteq> [] \<and>
      (\<forall>k. map_of res k =
         (if k \<in> set ?aff \<and> k \<in> set prefs \<and> map_of ?r0 k \<noteq> None
          then map_option (\<lambda>hs. list_mul hs 3) (map_of fh k) else map_of ?r0 k))"
  proof (cases "affinity_prefs_of mc")
    case None
    with ne ne0 show ?thesis by simp
  next
    case (Some ap)
    from triple_weight_loop_map_of [OF k0, of prefs ap] ne ne0 Some
    show ?thesis by simp
  qed
  then obtain res where res: "?stage1 = Inr res" "res \<noteq> []"
      and m: "\<And>k. map_of res k =
         (if k \<in> set ?aff \<and> k \<in> set prefs \<and> map_of ?r0 k \<noteq> None
          then map_option (\<lambda>hs. list_mul hs 3) (map_of fh k) else map_of ?r0 k)"
    by blast
  have run: "apply_mood_rules mc fh prefs = Inr res"
    unfolding apply_mood_rules_def Let_def
    using res(2) by (simp only: res(1) sum.case if_False)
  have v: "map_of res pref = Some (if pref \<in> set ?aff then list_mul hs 3 else list_mul hs 2)"
  proof (cases "pref \<in> set ?aff")
    case True
    with p hs show ?thesis
      by (simp only: m m0) simp
  next
    case False
    with p hs show ?thesis
      by (simp only: m m0) simp
  qed
  have ks: "\<forall>k. map_of res k \<noteq> None \<longrightarrow> k \<in> set prefs \<and> map_of fh k \<noteq> None"
    by (auto simp: m m0 split: if_splits)
  from run v ks show ?thesis
    by blast
qed

subsection \<open>Screen-time weighting\<close>

text \<open>
  Claim C4. For every screen time \<open>t\<close> the screen-time filter returns the catalog with
  the same categories in the same order, where the lists of \<open>digital_wellbeing\<close>,
  \<open>physical_activity\<close> and \<open>nature\<close>, and only these, are doubled when \<open>t > 240\<close>,
  the list of \<open>digital_wellbeing\<close>, and only this one, is doubled when
  \<open>120 < t \<le> 240\<close>, and every list is the catalog's own when \<open>t \<le> 120\<close>.
\<close>

theorem screen_time_rules_weights:
  "apply_screen_time_rules habits t =
     map (\<lambda>(category, hs).
            (category,
             if (if t > 240
                 then category \<in> {''digital_wellbeing'', ''physical_activity'', ''nature''}
                 else if t > 120 then category = ''digital_wellbeing'' else False)
             then hs @ hs else hs))
       habits"
  by (simp add: apply_screen_time_rules_def habits_def list_mul_2)

subsection \<open>Preference normalization\<close>

text \<open>
  Claim C5. Normalization is idempotent, on one preference string and on a list of
  them: a canonical key is returned as it is, a string that resolves to no category is
  passed through as it is, and a second application changes nothing.
\<close>

theorem normalize_idempotent:
  "normalize_preferences (normalize_preferences ps) = normalize_preferences ps \<and>
   normalize_pref (normalize_pref x) = normalize_pref x \<and>
   (\<forall>k \<in> set valid_preferences. normalize_pref k = k) \<and>
   (map_of display_to_internal (lower x) = None \<and> lower x \<notin> set valid_preferences
      \<longrightarrow> normalize_pref x = x)"
proof -
  have "normalize_preferences (normalize_preferences ps) = normalize_preferences ps"
    by (simp add: normalize_preferences_map normalize_pref_idem)
  moreover have "map_of display_to_internal (lower x) = None \<and>
      lower x \<notin> set valid_preferences \<longrightarrow> normalize_pref x = x"
    by (simp add: normalize_pref_def Let_def)
  ultimately show ?thesis
    by (simp add: normalize_pref_idem normalize_pref_canonical)
qed

theorem normalize_idempotent_witness:
  "''physical_activity'' \<in> set valid_preferences \<and>
   normalize_pref ''physical_activity'' = ''physical_activity'' \<and>
   map_of display_to_internal (lower ''Gaming'') = None \<and>
   lower ''Gaming'' \<notin> set valid_preferences \<and>
   normalize_pref ''Gaming'' = ''Gaming'' \<and>
   normalize_preferences [''Physical Activity'', ''NATURE'', ''Gaming''] =
     [''physical_activity'', ''nature'', ''Gaming''] \<and>
   normalize_preferences (normalize_preferences [''Physical Activity'', ''NATURE'', ''Gaming'']) =
     [''physical_activity'', ''nature'', ''Gaming'']"
proof -
  have l: "lower ''Gaming'' = ''gaming''"
    by (simp add: lower_simps)
  have a: "''physical_activity'' \<in> set valid_preferences"
    by (simp add: valid_preferences_def)
  have b: "map_of display_to_internal (lower ''Gaming'') = None"
    by (simp add: l display_to_internal_eq)
  have c: "lower ''Gaming'' \<notin> set valid_preferences"
    by (simp add: l valid_preferences_def)
  have n: "normalize_preferences [''Physical Activity'', ''NATURE'', ''Gaming''] =
      [''physical_activity'', ''nature'', ''Gaming'']"
    by (simp add: normalize_preferences_map normalize_pref_def Let_def display_to_internal_eq
        valid_preferences_def lower_simps)
  show ?thesis
    using a b c n
      normalize_idempotent [of "[''Physical Activity'', ''NATURE'', ''Gaming'']" "''Gaming''"]
    by simp
qed

subsection \<open>Validation of the mood\<close>

text \<open>
  Claim C7. When the lower-cased mood is not in the valid-mood vocabulary, validation
  raises the mood error, whose message lists the eighteen valid moods, and
  \<open>get_habit_suggestion\<close> returns that error whatever the screen time, the
  preferences and the random draw are: no filter and no selection contributes to it.
\<close>

theorem invalid_mood_rejected:
  assumes "lower mood \<notin> set valid_moods"
  shows "validate_inputs mood screen_time_minutes preferences =
           Inl (ValueError (''Invalid mood: '' @ mood @ ''. Valid moods are: '' @
             ''stressed, anxious, overwhelmed, tired, fatigued, exhausted, happy, excited, motivated, bored, understimulated, restless, sad, down, depressed, angry, frustrated, irritated''))
         \<and> get_habit_suggestion rnd now mood screen_time_minutes preferences =
           Inl (ValueError (''Invalid mood: '' @ mood @ ''. Valid moods are: '' @
             ''stressed, anxious, overwhelmed, tired, fatigued, exhausted, happy, excited, motivated, bored, understimulated, restless, sad, down, depressed, angry, frustrated, irritated''))"
proof -
  have v: "validate_inputs mood screen_time_minutes preferences =
      Inl (ValueError (''Invalid mood: '' @ mood @ ''. Valid moods are: '' @ join '', '' valid_moods))"
    using assms by (simp add: validate_inputs_def)
  have g: "get_habit_suggestion rnd now mood screen_time_minutes preferences =
      Inl (ValueError (''Invalid mood: '' @ mood @ ''. Valid moods are: '' @ join '', '' valid_moods))"
    unfolding get_habit_suggestion_def by (simp only: v sum.case)
  show ?thesis
    using v g by (simp only: join_valid_moods simp_thms)
qed

theorem invalid_mood_rejected_witness:
  "lower ''Neutral'' \<notin> set valid_moods \<and>
   get_habit_suggestion 0 ''2026-01-01T00:00:00'' ''Neutral'' 300 [''Productivity''] =
     Inl (ValueError
       ''Invalid mood: Neutral. Valid moods are: stressed, anxious, overwhelmed, tired, fatigued, exhausted, happy, excited, motivated, bored, understimulated, restless, sad, down, depressed, angry, frustrated, irritated'')"
proof -
  have v: "lower ''Neutral'' \<notin> set valid_moods"
    by (simp add: valid_moods_def lower_Neutral)
  show ?thesis
    using v invalid_mood_rejected [OF v, of 300 "[''Productivity'']" 0 "''2026-01-01T00:00:00''"]
    by simp
qed

subsection \<open>The mood taxonomy\<close>

text \<open>
  Claim C8. The mood lists of the five mood categories, taken together, are the
  eighteen valid moods, and no mood occurs in two of them or twice in one; so for every
  mood whose lower-cased form is valid the classifier returns a category, that category
  lists the mood, and no other category does.
\<close>

theorem mood_taxonomy_partition:
  "length valid_moods = 18 \<and> distinct valid_moods \<and>
   length mood_categories = 5 \<and> distinct (map fst mood_categories) \<and>
   set (concat (map snd mood_categories)) = set valid_moods \<and>
   distinct (concat (map snd mood_categories)) \<and>
   (\<forall>m. lower m \<in> set valid_moods \<longrightarrow>
      (\<exists>c ms. mood_category_loop mood_categories m = Some c \<and>
         (c, ms) \<in> set mood_categories \<and> lower m \<in> set ms \<and>
         (\<forall>c' ms'. (c', ms') \<in> set mood_categories \<and> lower m \<in> set ms' \<longrightarrow> c' = c)))"
proof -
  have len: "length valid_moods = 18" "length mood_categories = 5"
    by (simp_all add: valid_moods_def mood_categories_def)
  have d2: "distinct (map fst mood_categories)"
    by (simp add: mood_categories_def)
  have dc: "distinct (concat (map snd mood_categories))"
    by (simp only: concat_mood_categories distinct_valid_moods)
  have single: "\<exists>c ms. mood_category_loop mood_categories m = Some c \<and>
         (c, ms) \<in> set mood_categories \<and> lower m \<in> set ms \<and>
         (\<forall>c' ms'. (c', ms') \<in> set mood_categories \<and> lower m \<in> set ms' \<longrightarrow> c' = c)"
    if v: "lower m \<in> set valid_moods" for m
  proof -
    from v obtain c where c: "mood_category_loop mood_categories m = Some c"
      using mood_category_loop_defined [of m mood_categories]
      by (auto simp only: concat_mood_categories)
    from mood_category_loop_Some [OF c] obtain ms
      where ms: "(c, ms) \<in> set mood_categories" "lower m \<in> set ms"
      by blast
    have "c' = c" if "(c', ms') \<in> set mood_categories" "lower m \<in> set ms'" for c' ms'
      using distinct_concat_unique [OF dc that(1) ms(1) that(2) ms(2)] .
    with c ms show ?thesis by blast
  qed
  show ?thesis
    using len distinct_valid_moods d2 dc single
    by (simp only: concat_mood_categories) blast
qed

theorem mood_taxonomy_partition_witness:
  "lower ''Sad'' \<in> set valid_moods \<and>
   mood_category_loop mood_categories ''Sad'' = Some ''negative'' \<and>
   (''negative'', [''sad'', ''down'', ''depressed'', ''angry'', ''frustrated'', ''irritated''])
     \<in> set mood_categories"
proof -
  have v: "lower ''Sad'' \<in> set valid_moods"
    by (simp add: valid_moods_def lower_Sad)
  from mood_taxonomy_partition v
  obtain c ms where "mood_category_loop mood_categories ''Sad'' = Some c"
      "(c, ms) \<in> set mood_categories" "lower ''Sad'' \<in> set ms"
    by blast
  moreover have "mood_category_loop mood_categories ''Sad'' = Some ''negative''"
    by (simp add: mood_categories_def lower_Sad)
  ultimately show ?thesis
    using v by (simp add: mood_categories_def)
qed

subsection \<open>Valid moods without preferences\<close>

text \<open>
  Claim C1. For every mood whose lower-cased form is one of the eighteen valid moods and
  every screen time \<open>t \<ge> 0\<close>, \<open>get_habit_suggestion\<close> with no preferences returns a
  result and raises no error: validation passes, the mood has a category, and the
  mood/preference filter returns a catalog.
\<close>

theorem valid_mood_no_preferences_total:
  assumes "lower mood \<in> set valid_moods" and "0 \<le> t"
  shows "validate_inputs mood t [] = Inr () \<and>
         (\<exists>c. mood_category_loop mood_categories mood = Some c) \<and>
         (\<exists>out. apply_mood_rules (mood_category_loop mood_categories mood)
                   (apply_screen_time_rules habits t) (normalize_preferences []) = Inr out) \<and>
         (\<exists>res. get_habit_suggestion rnd now mood t [] = Inr res \<and>
                 res_mood res = mood \<and> res_screen_time_minutes res = t \<and>
                 res_preferences res = [])"
proof -
  have v: "validate_inputs mood t [] = Inr ()"
    using assms by (intro validate_inputs_ok) (simp_all add: normalize_preferences_Nil)
  have c: "\<exists>c. mood_category_loop mood_categories mood = Some c"
    using assms(1) mood_category_loop_defined [of mood mood_categories]
    by (simp only: concat_mood_categories)
  from get_habit_suggestion_valid [OF v, of rnd now]
  obtain out res where
    "apply_mood_rules (mood_category_loop mood_categories mood)
       (apply_screen_time_rules habits t) (normalize_preferences []) = Inr out"
    "get_habit_suggestion rnd now mood t [] = Inr res"
    "res_mood res = mood" "res_screen_time_minutes res = t" "res_preferences res = []"
    by force
  with v c show ?thesis by blast
qed

theorem valid_mood_no_preferences_total_witness:
  "lower ''HAPPY'' \<in> set valid_moods \<and> (0::int) \<le> 45 \<and>
   validate_inputs ''HAPPY'' 45 [] = Inr () \<and>
   (\<exists>res. get_habit_suggestion 7 ''2026-01-01T00:00:00'' ''HAPPY'' 45 [] = Inr res \<and>
          res_mood res = ''HAPPY'')"
proof -
  have a: "lower ''HAPPY'' \<in> set valid_moods"
    by (simp add: lower_HAPPY valid_moods_def)
  have b: "(0::int) \<le> 45"
    by simp
  from valid_mood_no_preferences_total [OF a b, of 7 "''2026-01-01T00:00:00''"] a b
  show ?thesis by blast
qed

subsection \<open>The example of a stressed user\<close>

text \<open>
  Claim C2. For mood "Stressed", screen time 310 and preferences "Relaxation" and
  "Mindfulness", the pool after the mood/preference filter holds the relaxation list
  three times and the mindfulness list three times and nothing else, so for every random
  draw the returned habit is in the relaxation or in the mindfulness catalog list.
\<close>

theorem stressed_example_habit:
  "normalize_preferences [''Relaxation'', ''Mindfulness''] = [''relaxation'', ''mindfulness''] \<and>
   mood_category_loop mood_categories ''Stressed'' = Some ''stressed_anxious'' \<and>
   apply_mood_rules (Some ''stressed_anxious'') (apply_screen_time_rules habits 310)
     [''relaxation'', ''mindfulness''] =
     Inr [(''relaxation'', relaxation_habits @ relaxation_habits @ relaxation_habits),
          (''mindfulness'', mindfulness_habits @ mindfulness_habits @ mindfulness_habits)] \<and>
   map_of habits ''relaxation'' = Some relaxation_habits \<and>
   map_of habits ''mindfulness'' = Some mindfulness_habits \<and>
   (\<exists>res. get_habit_suggestion rnd now ''Stressed'' 310 [''Relaxation'', ''Mindfulness''] = Inr res \<and>
          (res_habit res \<in> set relaxation_habits \<or> res_habit res \<in> set mindfulness_habits))"
proof -
  let ?out = "[(''relaxation'', relaxation_habits @ relaxation_habits @ relaxation_habits),
          (''mindfulness'', mindfulness_habits @ mindfulness_habits @ mindfulness_habits)]"
  have m: "lower ''Stressed'' \<in> set valid_moods"
    by (simp add: lower_Stressed valid_moods_def)
  have p: "set (normalize_preferences [''Relaxation'', ''Mindfulness'']) \<subseteq> set valid_preferences"
    by (simp add: normalize_example valid_preferences_def)
  have v: "validate_inputs ''Stressed'' 310 [''Relaxation'', ''Mindfulness''] = Inr ()"
    using m _ p by (rule validate_inputs_ok) simp
  from get_habit_suggestion_valid [OF v, of rnd now]
  obtain out res where out: "apply_mood_rules (mood_category_loop mood_categories ''Stressed'')
        (apply_screen_time_rules habits 310)
        (normalize_preferences [''Relaxation'', ''Mindfulness'']) = Inr out"
      "out \<noteq> []"
      "\<forall>p \<in> set out. snd p \<noteq> [] \<and> set (snd p) \<subseteq> set (concat (map snd habits))"
    and res: "get_habit_suggestion rnd now ''Stressed'' 310 [''Relaxation'', ''Mindfulness''] = Inr res"
      "res_habit res = weighted_random_selection rnd out"
    by force
  from out(1) have "out = ?out"
    by (simp only: mood_category_Stressed normalize_example stressed_example_pool sum.inject)
  with weighted_random_selection_mem [OF out(2,3), of rnd] res(2)
  have "res_habit res \<in> set relaxation_habits \<or> res_habit res \<in> set mindfulness_habits"
    by auto
  with res(1) have "\<exists>res. get_habit_suggestion rnd now ''Stressed'' 310
        [''Relaxation'', ''Mindfulness''] = Inr res \<and>
      (res_habit res \<in> set relaxation_habits \<or> res_habit res \<in> set mindfulness_habits)"
    by blast
  moreover have "map_of habits ''relaxation'' = Some relaxation_habits"
    "map_of habits ''mindfulness'' = Some mindfulness_habits"
    by (simp_all add: habits_def)
  ultimately show ?thesis
    using normalize_example mood_category_Stressed stressed_example_pool by blast
qed

subsection \<open>A sad user without preferences\<close>

text \<open>
  Claim C3. For mood "Sad", no preferences and every screen time \<open>t \<ge> 0\<close>, the mood
  category is \<open>negative\<close> and the pool after the mood/preference filter is the lists of
  mindfulness, social and nature of the screen-time-weighted catalog, each twice; the
  returned habit is one of their habits and is in neither the productivity nor the
  creative list.
\<close>

theorem sad_no_preferences_pool:
  assumes "0 \<le> t"
  shows "mood_category_loop mood_categories ''Sad'' = Some ''negative'' \<and>
    (\<exists>ms ss ns.
       map_of (apply_screen_time_rules habits t) ''mindfulness'' = Some ms \<and>
       map_of (apply_screen_time_rules habits t) ''social'' = Some ss \<and>
       map_of (apply_screen_time_rules habits t) ''nature'' = Some ns \<and>
       apply_mood_rules (Some ''negative'') (apply_screen_time_rules habits t) [] =
         Inr [(''mindfulness'', ms @ ms), (''social'', ss @ ss), (''nature'', ns @ ns)] \<and>
       set ms = set mindfulness_habits \<and> set ss = set social_habits \<and>
       set ns = set nature_habits) \<and>
    (\<exists>res. get_habit_suggestion rnd now ''Sad'' t [] = Inr res \<and>
       res_mood_category res = Some ''negative'' \<and>
       res_habit res \<in> set mindfulness_habits \<union> set social_habits \<union> set nature_habits \<and>
       res_habit res \<notin> set productivity_habits \<and>
       res_habit res \<notin> set creative_habits)"
proof -
  let ?fh = "apply_screen_time_rules habits t"
  let ?ns = "if t > 240 then nature_habits @ nature_habits else nature_habits"
  let ?out = "[(''mindfulness'', mindfulness_habits @ mindfulness_habits),
      (''social'', social_habits @ social_habits), (''nature'', ?ns @ ?ns)]"
  have pool: "apply_mood_rules (Some ''negative'') ?fh [] = Inr ?out"
    by (rule negative_pool) (rule negative_weighted_lists)+
  have ns: "set ?ns = set nature_habits"
    by simp
  have first: "\<exists>ms ss ns.
       map_of ?fh ''mindfulness'' = Some ms \<and> map_of ?fh ''social'' = Some ss \<and>
       map_of ?fh ''nature'' = Some ns \<and>
       apply_mood_rules (Some ''negative'') ?fh [] =
         Inr [(''mindfulness'', ms @ ms), (''social'', ss @ ss), (''nature'', ns @ ns)] \<and>
       set ms = set mindfulness_habits \<and> set ss = set social_habits \<and>
       set ns = set nature_habits"
    using negative_weighted_lists [of t] pool ns by blast
  have m: "lower ''Sad'' \<in> set valid_moods"
    by (simp add: lower_Sad valid_moods_def)
  have v: "validate_inputs ''Sad'' t [] = Inr ()"
    using m assms by (rule validate_inputs_ok) (simp add: normalize_preferences_Nil)
  from get_habit_suggestion_valid [OF v, of rnd now]
  obtain out res where out: "apply_mood_rules (mood_category_loop mood_categories ''Sad'')
        ?fh (normalize_preferences []) = Inr out"
      "out \<noteq> []"
      "\<forall>p \<in> set out. snd p \<noteq> [] \<and> set (snd p) \<subseteq> set (concat (map snd habits))"
    and res: "get_habit_suggestion rnd now ''Sad'' t [] = Inr res"
      "res_habit res = weighted_random_selection rnd out"
      "res_mood_category res = mood_category_loop mood_categories ''Sad''"
    by force
  from out(1) have "out = ?out"
    by (simp only: mood_category_Sad normalize_preferences_Nil pool sum.inject)
  with weighted_random_selection_mem [OF out(2,3), of rnd] res(2)
  have mem: "res_habit res \<in> set mindfulness_habits \<union> set social_habits \<union> set nature_habits"
    by (auto split: if_splits)
  from affinity_disjoint [OF mem] mem res(1,3) mood_category_Sad
  have "\<exists>res. get_habit_suggestion rnd now ''Sad'' t [] = Inr res \<and>
       res_mood_category res = Some ''negative'' \<and>
       res_habit res \<in> set mindfulness_habits \<union> set social_habits \<union> set nature_habits \<and>
       res_habit res \<notin> set productivity_habits \<and>
       res_habit res \<notin> set creative_habits"
    by auto
  with first mood_category_Sad show ?thesis
    by blast
qed

theorem sad_no_preferences_pool_witness:
  "(0::int) \<le> 120 \<and>
   apply_mood_rules (Some ''negative'') (apply_screen_time_rules habits 120) [] =
     Inr [(''mindfulness'', mindfulness_habits @ mindfulness_habits),
          (''social'', social_habits @ social_habits),
          (''nature'', nature_habits @ nature_habits)] \<and>
   (\<exists>res. get_habit_suggestion 3 ''2026-01-01T00:00:00'' ''Sad'' 120 [] = Inr res \<and>
      res_habit res \<notin> set productivity_habits \<and> res_habit res \<notin> set creative_habits)"
proof -
  have a: "(0::int) \<le> 120"
    by simp
  have w: "map_of (apply_screen_time_rules habits 120) ''mindfulness'' = Some mindfulness_habits"
    "map_of (apply_screen_time_rules habits 120) ''social'' = Some social_habits"
    "map_of (apply_screen_time_rules habits 120) ''nature'' = Some nature_habits"
    using negative_weighted_lists [of 120] by simp_all
  from sad_no_preferences_pool [OF a, of 3 "''2026-01-01T00:00:00''"]
  obtain ms ss ns res where
    "map_of (apply_screen_time_rules habits 120) ''mindfulness'' = Some ms"
    "map_of (apply_screen_time_rules habits 120) ''social'' = Some ss"
    "map_of (apply_screen_time_rules habits 120) ''nature'' = Some ns"
    "apply_mood_rules (Some ''negative'') (apply_screen_time_rules habits 120) [] =
       Inr [(''mindfulness'', ms @ ms), (''social'', ss @ ss), (''nature'', ns @ ns)]"
    "get_habit_suggestion 3 ''2026-01-01T00:00:00'' ''Sad'' 120 [] = Inr res"
    "res_habit res \<notin> set productivity_habits" "res_habit res \<notin> set creative_habits"
    by blast
  with w a show ?thesis
    by auto
qed

subsection \<open>The returned habit\<close>

text \<open>
  Claim C9. For a valid mood, a screen time \<open>t \<ge> 0\<close> and preferences that all
  normalize to valid categories, \<open>get_habit_suggestion\<close> returns a result whose habit
  is an element of one of the eight catalog lists, and it is not the fallback string:
  the selection pool is never empty.
\<close>

theorem returned_habit_in_catalog:
  assumes "lower mood \<in> set valid_moods" and "0 \<le> t"
    and "set (normalize_preferences prefs) \<subseteq> set valid_preferences"
  shows "\<exists>res. get_habit_suggestion rnd now mood t prefs = Inr res \<and>
           res_habit res \<in> set (concat (map snd habits)) \<and>
           res_habit res \<noteq> fallback_habit"
proof -
  have v: "validate_inputs mood t prefs = Inr ()"
    using assms by (rule validate_inputs_ok)
  from get_habit_suggestion_valid [OF v, of rnd now]
  obtain out res where out: "out \<noteq> []"
      "\<forall>p \<in> set out. snd p \<noteq> [] \<and> set (snd p) \<subseteq> set (concat (map snd habits))"
    and res: "get_habit_suggestion rnd now mood t prefs = Inr res"
      "res_habit res = weighted_random_selection rnd out"
    by force
  from weighted_random_selection_mem [OF out, of rnd] res(2)
  have m: "res_habit res \<in> set (concat (map snd habits))"
    by simp
  with fallback_not_in_catalog have "res_habit res \<noteq> fallback_habit"
    by metis
  with res(1) m show ?thesis by blast
qed

theorem returned_habit_in_catalog_witness:
  "lower ''Tired'' \<in> set valid_moods \<and> (0::int) \<le> 45 \<and>
   set (normalize_preferences [''Physical Activity'', ''Nature'']) \<subseteq> set valid_preferences \<and>
   (\<exists>res. get_habit_suggestion 11 ''2026-01-01T00:00:00'' ''Tired'' 45
            [''Physical Activity'', ''Nature''] = Inr res \<and>
          res_habit res \<in> set (concat (map snd habits)) \<and>
          res_habit res \<noteq> fallback_habit)"
proof -
  have l: "lower ''Tired'' = ''tired''"
    by (simp add: lower_simps)
  have a: "lower ''Tired'' \<in> set valid_moods"
    by (simp add: l valid_moods_def)
  have b: "(0::int) \<le> 45"
    by simp
  have n: "normalize_preferences [''Physical Activity'', ''Nature''] =
      [''physical_activity'', ''nature'']"
    by (simp add: normalize_preferences_map normalize_pref_def Let_def display_to_internal_eq
        lower_simps)
  have c: "set (normalize_preferences [''Physical Activity'', ''Nature'']) \<subseteq> set valid_preferences"
    by (simp add: n valid_preferences_def)
  from returned_habit_in_catalog [OF a b c, of 11 "''2026-01-01T00:00:00''"] a b c
  show ?thesis by blast
qed

subsection \<open>Duplicate preferences\<close>

text \<open>
  Claim C10. For every mood category, every weighted catalog and every preference list,
  the mood/preference filter returns for the list the result it returns for the list with
  its duplicates removed (the first occurrence of each entry kept, the order unchanged):
  the same keys in the same order with the same lists. And however often a preference
  occurs in the list, when the weighted catalog has a list for it the filter returns a
  mapping that gives it that list three times if the preference is in the affinity list
  of the mood category and twice otherwise, never more; the keys of that mapping are
  preferences that the weighted catalog has.
\<close>

theorem duplicate_preferences_do_not_stack:
  "apply_mood_rules mood_category filtered_habits (rev (remdups (rev preferences))) =
     apply_mood_rules mood_category filtered_habits preferences \<and>
   (\<forall>pref hs. pref \<in> set preferences \<and> map_of filtered_habits pref = Some hs \<longrightarrow>
      (\<exists>result_habits.
         apply_mood_rules mood_category filtered_habits preferences = Inr result_habits \<and>
         map_of result_habits pref =
           Some (if pref \<in> set (case affinity_prefs_of mood_category of
                                   Some affinity_prefs \<Rightarrow> affinity_prefs | None \<Rightarrow> [])
                 then list_mul hs 3 else list_mul hs 2) \<and>
         (\<forall>k. map_of result_habits k \<noteq> None \<longrightarrow>
              k \<in> set preferences \<and> map_of filtered_habits k \<noteq> None)))"
proof (intro conjI allI impI)
  show "apply_mood_rules mood_category filtered_habits (rev (remdups (rev preferences))) =
     apply_mood_rules mood_category filtered_habits preferences"
    by (rule apply_mood_rules_dedup)
next
  fix pref hs
  assume "pref \<in> set preferences \<and> map_of filtered_habits pref = Some hs"
  then have "pref \<in> set preferences" and "map_of filtered_habits pref = Some hs"
    by simp_all
  then show "\<exists>result_habits.
         apply_mood_rules mood_category filtered_habits preferences = Inr result_habits \<and>
         map_of result_habits pref =
           Some (if pref \<in> set (case affinity_prefs_of mood_category of
                                   Some affinity_prefs \<Rightarrow> affinity_prefs | None \<Rightarrow> [])
                 then list_mul hs 3 else list_mul hs 2) \<and>
         (\<forall>k. map_of result_habits k \<noteq> None \<longrightarrow>
              k \<in> set preferences \<and> map_of filtered_habits k \<noteq> None)"
    by (rule apply_mood_rules_weights)
qed

theorem duplicate_preferences_do_not_stack_witness:
  "''nature'' \<in> set [''nature'', ''creative'', ''nature'', ''creative''] \<and>
   map_of habits ''nature'' = Some nature_habits \<and>
   affinity_prefs_of (Some ''tired_fatigued'') = Some [''physical_activity'', ''nature'', ''social''] \<and>
   apply_mood_rules (Some ''tired_fatigued'') habits
       [''nature'', ''creative'', ''nature'', ''creative''] =
     Inr [(''nature'', list_mul nature_habits 3), (''creative'', list_mul creative_habits 2)] \<and>
   apply_mood_rules (Some ''tired_fatigued'') habits [''nature'', ''creative''] =
     Inr [(''nature'', list_mul nature_habits 3), (''creative'', list_mul creative_habits 2)] \<and>
   (\<exists>result_habits.
      apply_mood_rules (Some ''tired_fatigued'') habits
        [''nature'', ''creative'', ''nature'', ''creative''] = Inr result_habits \<and>
      map_of result_habits ''nature'' = Some (list_mul nature_habits 3) \<and>
      map_of result_habits ''creative'' = Some (list_mul creative_habits 2))"
proof -
  let ?p = "[''nature'', ''creative'', ''nature'', ''creative'']"
  have a: "''nature'' \<in> set ?p" "''creative'' \<in> set ?p"
    by simp_all
  have b: "map_of habits ''nature'' = Some nature_habits"
    "map_of habits ''creative'' = Some creative_habits"
    by (simp_all add: habits_def)
  have c: "affinity_prefs_of (Some ''tired_fatigued'') =
      Some [''physical_activity'', ''nature'', ''social'']"
    by (simp add: affinity_prefs_of_def mood_preference_affinity_def)
  have d: "rev (remdups (rev ?p)) = [''nature'', ''creative'']"
    by simp
  note t = duplicate_preferences_do_not_stack [of "Some ''tired_fatigued''" habits ?p]
  from t have g: "\<exists>result_habits.
         apply_mood_rules (Some ''tired_fatigued'') habits ?p = Inr result_habits \<and>
         map_of result_habits pref =
           Some (if pref \<in> set (case affinity_prefs_of (Some ''tired_fatigued'') of
                                   Some affinity_prefs \<Rightarrow> affinity_prefs | None \<Rightarrow> [])
                 then list_mul hs 3 else list_mul hs 2)"
    if "pref \<in> set ?p" "map_of habits pref = Some hs" for pref hs
    using that by blast
  from g [OF a(1) b(1)] obtain r1 where r1:
      "apply_mood_rules (Some ''tired_fatigued'') habits ?p = Inr r1"
      "map_of r1 ''nature'' = Some (list_mul nature_habits 3)"
    by (auto simp: c)
  from g [OF a(2) b(2)] obtain r2 where r2:
      "apply_mood_rules (Some ''tired_fatigued'') habits ?p = Inr r2"
      "map_of r2 ''creative'' = Some (list_mul creative_habits 2)"
    by (auto simp: c)
  have e: "apply_mood_rules (Some ''tired_fatigued'') habits ?p =
      Inr [(''nature'', list_mul nature_habits 3), (''creative'', list_mul creative_habits 2)]"
    by (simp add: apply_mood_rules_def c habits_def)
  from t have f: "apply_mood_rules (Some ''tired_fatigued'') habits [''nature'', ''creative''] =
      apply_mood_rules (Some ''tired_fatigued'') habits ?p"
    by (simp only: d)
  from r1 r2 have "\<exists>result_habits.
      apply_mood_rules (Some ''tired_fatigued'') habits ?p = Inr result_habits \<and>
      map_of result_habits ''nature'' = Some (list_mul nature_habits 3) \<and>
      map_of result_habits ''creative'' = Some (list_mul creative_habits 2)"
    by auto
  with a(1) b(1) c e f show ?thesis
    by (simp only: simp_thms)
qed

subsection \<open>The catalog is not mutated\<close>

text \<open>
  Claim C6. For every screen time, in every heap where \<open>self.habits\<close> is a catalog
  (a dictionary whose values are lists), the screen-time filter returns a dictionary at
  an address that was not allocated before the call, hence other than \<open>self.habits\<close>;
  every object that existed before the call is unchanged, so \<open>self.habits\<close> still
  holds the same lists for the same categories; and the returned dictionary holds the
  catalog that \<open>apply_screen_time_rules\<close> computes.
\<close>

theorem screen_time_rules_do_not_mutate:
  assumes cat: "catalog_at h self_habits = Some c"
  shows "\<exists>h' r. apply_screen_time_rules_heap h self_habits t = Some (h', r) \<and>
           r \<noteq> self_habits \<and> r = length h \<and>
           take (length h) h' = h \<and>
           catalog_at h' self_habits = Some c \<and>
           catalog_at h' r = Some (apply_screen_time_rules c t)"
proof -
  let ?r = "length h"
  from dict_copy_ok [OF cat]
  obtain h0 where h0: "dict_copy h self_habits = Some (h0, ?r)" "length h0 = Suc ?r"
      "\<forall>i < ?r. h0 ! i = h ! i" "catalog_at h0 ?r = Some c"
    by blast
  let ?loop = "if t > 240
                 then double_categories_heap
                        [''digital_wellbeing'', ''physical_activity'', ''nature''] h0 ?r
                 else if t > 120
                 then double_categories_heap [''digital_wellbeing''] h0 ?r
                 else Some h0"
  have "\<exists>h'. ?loop = Some h' \<and> length h0 \<le> length h' \<and>
           (\<forall>i < length h0. i \<noteq> ?r \<longrightarrow> h' ! i = h0 ! i) \<and>
           catalog_at h' ?r = Some (apply_screen_time_rules c t)"
  proof (cases "t > 240")
    case True
    with double_categories_heap_ok [OF h0(4),
        of "[''digital_wellbeing'', ''physical_activity'', ''nature'']"]
    show ?thesis
      by (simp add: apply_screen_time_rules_def)
  next
    case False
    show ?thesis
    proof (cases "t > 120")
      case True
      with False double_categories_heap_ok [OF h0(4), of "[''digital_wellbeing'']"]
      show ?thesis
        by (simp add: apply_screen_time_rules_def)
    next
      case False
      with \<open>\<not> t > 240\<close> h0(4) show ?thesis
        by (simp add: apply_screen_time_rules_def)
    qed
  qed
  then obtain h' where h': "?loop = Some h'" "length h0 \<le> length h'"
      "\<forall>i < length h0. i \<noteq> ?r \<longrightarrow> h' ! i = h0 ! i"
      "catalog_at h' ?r = Some (apply_screen_time_rules c t)"
    by blast
  have run: "apply_screen_time_rules_heap h self_habits t = Some (h', ?r)"
    unfolding apply_screen_time_rules_heap_def by (simp only: h0(1) h'(1) option.case prod.case)
  have a: "self_habits < ?r"
    using cat by (auto elim!: catalog_atD dest: dict_at_length)
  have len: "?r \<le> length h'"
    using h0(2) h'(2) by simp
  have same: "h' ! i = h ! i" if "i < ?r" for i
    using that h0(2,3) h'(3) by simp
  have tk: "take ?r h' = h"
    using len same by (intro nth_equalityI) simp_all
  have keep: "catalog_at h' self_habits = Some c"
    using cat len
  proof (rule catalog_at_frame)
    show "h' ! i = h ! i" if "i < length h" "i \<noteq> ?r" for i
      using that(1) by (rule same)
    show "dict_at h ?r \<noteq> None \<or> length h \<le> ?r"
      by simp
    show "self_habits \<noteq> ?r"
      using a by simp
  qed
  from run a tk keep h'(4) show ?thesis
    by auto
qed

theorem screen_time_rules_do_not_mutate_witness:
  "catalog_at init_heap habits_addr = Some habits \<and>
   (\<exists>h' r. apply_screen_time_rules_heap init_heap habits_addr 310 = Some (h', r) \<and>
      r \<noteq> habits_addr \<and> take (length init_heap) h' = init_heap \<and>
      catalog_at h' habits_addr = Some habits \<and>
      catalog_at h' r = Some (apply_screen_time_rules habits 310))"
proof -
  have c: "catalog_at init_heap habits_addr = Some habits"
    by (simp add: catalog_at_def dict_at_def list_at_def init_heap_def habits_addr_def
        habits_def)
  from screen_time_rules_do_not_mutate [OF c, of 310] c show ?thesis
    by blast
qed

end
